theory Spec2Isabelle
  imports Main "HOL-Library.Char_ord" "HOL-Library.List_Lexorder" "HOL-Library.Sublist"
begin

section \<open>The semver package: \<open>clean\<close> and \<open>compare\<close>\<close>

text \<open>
  Modelled from the spec: the npm package \<open>semver\<close>, whose functions \<open>clean\<close> and
  \<open>compare\<close> the action imports (\<open>semver_clean\<close>, \<open>semver_compare\<close>), is not
  under src/. The spec calls them semantic-version normalization and semantic-version
  ordering (standard precedence: major, minor, patch, pre-release before release). The
  definitions below follow the package's strict mode: \<open>clean\<close> trims, drops leading
  \<open>=\<close> and \<open>v\<close> characters, parses with the full-version pattern and prints major, minor,
  patch and the pre-release identifiers, leaving build metadata out; \<open>compare\<close> parses
  both strings and throws when one of them is not a version.

  Strings are lists of code units below 256. Numbers are integers (never negative here):
  the package converts digit strings with unary plus, which is exact up to
  \<open>MAX_SAFE_INTEGER\<close>; the three main
  components are rejected above that bound, and a numeric pre-release identifier above it
  is compared here by its exact value, as the precedence rule prescribes.
\<close>

definition MAX_LENGTH :: nat where
  "MAX_LENGTH = 256"

definition MAX_SAFE_INTEGER :: int where
  "MAX_SAFE_INTEGER = 9007199254740991"

definition is_space :: "char \<Rightarrow> bool" where
  \<comment> \<open>the white space and line terminators of String.prototype.trim, below 256\<close>
  "is_space c = (c \<in> set [CHR 0x09, CHR 0x0A, CHR 0x0B, CHR 0x0C, CHR 0x0D, CHR 0x20, CHR 0xA0])"

definition trim :: "string \<Rightarrow> string" where
  "trim s = rev (dropWhile is_space (rev (dropWhile is_space s)))"

definition is_digit :: "char \<Rightarrow> bool" where
  "is_digit c = (CHR ''0'' \<le> c \<and> c \<le> CHR ''9'')"

definition letter_dash_number :: "char \<Rightarrow> bool" where
  \<comment> \<open>\<open>[a-zA-Z0-9-]\<close>\<close>
  "letter_dash_number c =
     ((CHR ''a'' \<le> c \<and> c \<le> CHR ''z'') \<or> (CHR ''A'' \<le> c \<and> c \<le> CHR ''Z'')
      \<or> is_digit c \<or> c = CHR ''-'')"

fun split_on :: "char \<Rightarrow> string \<Rightarrow> string list" where
  \<comment> \<open>String.prototype.split with a one-character separator\<close>
  "split_on sep [] = [[]]"
| "split_on sep (c # cs) =
     (if c = sep then [] # split_on sep cs
      else (case split_on sep cs of [] \<Rightarrow> [[c]] | p # ps \<Rightarrow> (c # p) # ps))"

fun join :: "string \<Rightarrow> string list \<Rightarrow> string" where
  \<comment> \<open>Array.prototype.join\<close>
  "join sep [] = []"
| "join sep [x] = x"
| "join sep (x # y # ys) = x @ sep @ join sep (y # ys)"

definition numeric_identifier :: "string \<Rightarrow> bool" where
  \<comment> \<open>\<open>0|[1-9]\d*\<close>\<close>
  "numeric_identifier s =
     (case s of [] \<Rightarrow> False
      | c # cs \<Rightarrow> list_all is_digit s \<and> (if c = CHR ''0'' then cs = [] else True))"

definition prerelease_identifier :: "string \<Rightarrow> bool" where
  \<comment> \<open>\<open>\d*[a-zA-Z-][a-zA-Z0-9-]*\<close> or a numeric identifier\<close>
  "prerelease_identifier s =
     (if list_all is_digit s then numeric_identifier s
      else list_all letter_dash_number s)"

definition build_identifier :: "string \<Rightarrow> bool" where
  \<comment> \<open>\<open>[a-zA-Z0-9-]+\<close>\<close>
  "build_identifier s = (s \<noteq> [] \<and> list_all letter_dash_number s)"

definition digit_value :: "char \<Rightarrow> int" where
  "digit_value c = of_char c - 48"

definition to_number :: "string \<Rightarrow> int" where
  \<comment> \<open>unary plus on a string of decimal digits\<close>
  "to_number s = foldl (\<lambda>n c. 10 * n + digit_value c) 0 s"

definition digit_char :: "int \<Rightarrow> char" where
  "digit_char d = char_of (48 + d)"

function number_to_string :: "int \<Rightarrow> string" where
  \<comment> \<open>a non-negative integer in a template literal: its decimal digits\<close>
  "number_to_string n =
     (if n < 10 then [digit_char n]
      else number_to_string (n div 10) @ [digit_char (n mod 10)])"
  by pat_completeness auto
termination
  by (relation "measure nat") auto

datatype ident = Numeric int | Alphanumeric string

record SemVer =
  major :: int
  minor :: int
  patch :: int
  prerelease :: "ident list"

definition match_MAIN_PRERELEASE ::
  "string \<Rightarrow> (string \<times> string \<times> string \<times> string option) option" where
  \<comment> \<open>the capture groups 1 to 4 of \<open>(N)\.(N)\.(N)(?:-(P(?:\.P)*))?\<close> on a whole string:
      the first \<open>-\<close> can only start the pre-release part\<close>
  "match_MAIN_PRERELEASE core =
     (let main = takeWhile (\<lambda>c. c \<noteq> CHR ''-'') core;
          pre = dropWhile (\<lambda>c. c \<noteq> CHR ''-'') core
      in if pre \<noteq> [] \<and> \<not> list_all prerelease_identifier (split_on CHR ''.'' (tl pre))
         then None
         else (case split_on CHR ''.'' main of
                 [a, b, c] \<Rightarrow>
                   if numeric_identifier a \<and> numeric_identifier b \<and> numeric_identifier c
                   then Some (a, b, c, if pre = [] then None else Some (tl pre))
                   else None
               | _ \<Rightarrow> None))"

definition match_FULL :: "string \<Rightarrow> (string \<times> string \<times> string \<times> string option) option" where
  \<comment> \<open>the capture groups 1 to 4 of \<open>^v?(N)\.(N)\.(N)(?:-(P(?:\.P)*))?(?:\+(B(?:\.B)*))?$\<close>:
      the first \<open>+\<close> can only start the build metadata\<close>
  "match_FULL s =
     (let s1 = (case s of [] \<Rightarrow> [] | c # cs \<Rightarrow> if c = CHR ''v'' then cs else s);
          core = takeWhile (\<lambda>c. c \<noteq> CHR ''+'') s1;
          build = dropWhile (\<lambda>c. c \<noteq> CHR ''+'') s1
      in if build \<noteq> [] \<and> \<not> list_all build_identifier (split_on CHR ''.'' (tl build)) then None
         else match_MAIN_PRERELEASE core)"

definition to_identifier :: "string \<Rightarrow> ident" where
  \<comment> \<open>"numberify any prerelease numeric ids"\<close>
  "to_identifier s = (if s \<noteq> [] \<and> list_all is_digit s then Numeric (to_number s) else Alphanumeric s)"

definition new_SemVer :: "string \<Rightarrow> SemVer option" where
  \<comment> \<open>the constructor of class SemVer; \<open>None\<close> is its TypeError\<close>
  "new_SemVer version =
     (if length version > MAX_LENGTH then None
      else (case match_FULL (trim version) of
              None \<Rightarrow> None
            | Some (m1, m2, m3, m4) \<Rightarrow>
                if to_number m1 > MAX_SAFE_INTEGER then None
                else if to_number m2 > MAX_SAFE_INTEGER then None
                else if to_number m3 > MAX_SAFE_INTEGER then None
                else Some \<lparr>major = to_number m1, minor = to_number m2, patch = to_number m3,
                           prerelease = (case m4 of None \<Rightarrow> []
                                         | Some p \<Rightarrow> map to_identifier (split_on CHR ''.'' p))\<rparr>))"

fun identifier_to_string :: "ident \<Rightarrow> string" where
  "identifier_to_string (Numeric n) = number_to_string n"
| "identifier_to_string (Alphanumeric s) = s"

definition format :: "SemVer \<Rightarrow> string" where
  \<comment> \<open>SemVer.format: the field \<open>version\<close>\<close>
  "format v =
     number_to_string (major v) @ ''.'' @ number_to_string (minor v) @ ''.''
       @ number_to_string (patch v)
       @ (if prerelease v \<noteq> [] then ''-'' @ join ''.'' (map identifier_to_string (prerelease v))
          else [])"

text \<open>
  Modelled from the spec: \<open>clean\<close> of the semver package, which is not under src/; the
  spec's semantic-version normalization, with no leading \<open>v\<close> and no build metadata in
  the result.
\<close>

definition semver_clean :: "string \<Rightarrow> string option" where
  \<comment> \<open>\<open>parse(version.trim().replace(/^[=v]+/, ''))\<close>, then the field \<open>version\<close>; \<open>None\<close> is null\<close>
  "semver_clean version =
     map_option format
       (new_SemVer (dropWhile (\<lambda>c. c = CHR ''='' \<or> c = CHR ''v'') (trim version)))"

definition compareIdentifiers :: "ident \<Rightarrow> ident \<Rightarrow> int" where
  "compareIdentifiers a b =
     (case (a, b) of
        (Numeric m, Numeric n) \<Rightarrow> if m = n then 0 else if m < n then - 1 else 1
      | (Numeric m, Alphanumeric t) \<Rightarrow> - 1
      | (Alphanumeric s, Numeric n) \<Rightarrow> 1
      | (Alphanumeric s, Alphanumeric t) \<Rightarrow> if s = t then 0 else if s < t then - 1 else 1)"

definition compareMain :: "SemVer \<Rightarrow> SemVer \<Rightarrow> int" where
  "compareMain this other =
     (if compareIdentifiers (Numeric (major this)) (Numeric (major other)) \<noteq> 0
      then compareIdentifiers (Numeric (major this)) (Numeric (major other))
      else if compareIdentifiers (Numeric (minor this)) (Numeric (minor other)) \<noteq> 0
      then compareIdentifiers (Numeric (minor this)) (Numeric (minor other))
      else compareIdentifiers (Numeric (patch this)) (Numeric (patch other)))"

fun comparePre_loop :: "ident list \<Rightarrow> ident list \<Rightarrow> int" where
  \<comment> \<open>the do-while loop of comparePre, from index i on\<close>
  "comparePre_loop [] [] = 0"
| "comparePre_loop (a # as) [] = 1"
| "comparePre_loop [] (b # bs) = - 1"
| "comparePre_loop (a # as) (b # bs) =
     (if a = b then comparePre_loop as bs else compareIdentifiers a b)"

definition comparePre :: "SemVer \<Rightarrow> SemVer \<Rightarrow> int" where
  "comparePre this other =
     (if prerelease this \<noteq> [] \<and> prerelease other = [] then - 1
      else if prerelease this = [] \<and> prerelease other \<noteq> [] then 1
      else if prerelease this = [] \<and> prerelease other = [] then 0
      else comparePre_loop (prerelease this) (prerelease other))"

definition SemVer_compare :: "SemVer \<Rightarrow> SemVer \<Rightarrow> int" where
  "SemVer_compare this other =
     (if format other = format this then 0
      else if compareMain this other \<noteq> 0 then compareMain this other
      else comparePre this other)"

text \<open>
  Modelled from the spec: \<open>compare\<close> of the semver package, which is not under src/; the
  spec's semantic-version ordering: major, minor, patch, then a pre-release before its
  release. The result is -1, 0 or 1.
\<close>

definition semver_compare :: "string \<Rightarrow> string \<Rightarrow> int option" where
  \<comment> \<open>\<open>new SemVer(a).compare(new SemVer(b))\<close>; \<open>None\<close> is the TypeError of a constructor\<close>
  "semver_compare a b =
     (case new_SemVer a of
        None \<Rightarrow> None
      | Some x \<Rightarrow> (case new_SemVer b of None \<Rightarrow> None | Some y \<Rightarrow> Some (SemVer_compare x y)))"

section \<open>Errors, effects and collaborators\<close>

text \<open>
  The action throws \<open>Error\<close> objects that differ by their message only; each message is
  a constructor here, named after the error taxonomy, with the interpolated values as
  arguments. \<open>TypeError\<close> is the error of the semver constructor (or of the runtime on a
  property of \<open>undefined\<close>), \<open>External\<close> an error thrown by a collaborator, with its
  message.
\<close>

datatype error =
    UnsupportedPlatform string
  | InvalidVersion string
  | NotAnExactVersion string
  | NoMatchingRelease
  | AssetNotFound string
  | UnsupportedExtension string
  | NoExecutableFound
  | VerificationFailed string string
  | TypeError
  | External string

text \<open>
  Every call of a collaborator (the pipeline's input, output and logging, the tool cache,
  the download and extraction helpers, the file system, process execution, the release
  registry) is recorded as an event. A run takes the events so far and returns its
  result with the extended list.
\<close>

datatype event =
    StartGroup string
  | EndGroup
  | GetInput string
  | IsDebug
  | Info string
  | Debug string
  | AddPath string
  | SetOutput string string
  | Find string string
  | DownloadTool string
  | ExtractZip string
  | ExtractTar string
  | CacheDir string string string string
  | ReaddirSync string
  | GetExecOutput string "string list"
  | GetLatestRelease "string option" string string
  | ListReleases "string option" string string nat
  | GetReleaseByTag "string option" string string string

type_synonym 'a run = "event list \<Rightarrow> (error + 'a) \<times> event list"

definition return_run :: "'a \<Rightarrow> 'a run" where
  "return_run x t = (Inr x, t)"

definition throw :: "error \<Rightarrow> 'a run" where
  "throw e t = (Inl e, t)"

definition seq :: "'a run \<Rightarrow> ('a \<Rightarrow> 'b run) \<Rightarrow> 'b run" where
  \<comment> \<open>one statement after the other: an error ends the run\<close>
  "seq m f t = (case m t of (Inl e, t') \<Rightarrow> (Inl e, t') | (Inr x, t') \<Rightarrow> f x t')"

definition lift :: "error + 'a \<Rightarrow> 'a run" where
  \<comment> \<open>a computation without effects\<close>
  "lift r t = (r, t)"

definition effect :: "event \<Rightarrow> unit run" where
  \<comment> \<open>a collaborator call that returns nothing\<close>
  "effect e t = (Inr (), t @ [e])"

definition call :: "event \<Rightarrow> (event list \<Rightarrow> string + 'a) \<Rightarrow> 'a run" where
  \<comment> \<open>a collaborator call: its answer may depend on the events before it\<close>
  "call e answer t =
     (case answer t of Inl msg \<Rightarrow> (Inl (External msg), t @ [e]) | Inr x \<Rightarrow> (Inr x, t @ [e]))"

definition group :: "string \<Rightarrow> 'a run \<Rightarrow> 'a run" where
  \<comment> \<open>core.group: startGroup, the body, and endGroup in a finally block\<close>
  "group name fn t = (case fn (t @ [StartGroup name]) of (r, t') \<Rightarrow> (r, t' @ [EndGroup]))"

text \<open>
  Two observations on runs, used in the proofs: the errors a run can end with, and the
  events it can add.
\<close>

definition raises_only :: "'a run \<Rightarrow> (error \<Rightarrow> bool) \<Rightarrow> bool" where
  "raises_only m E = (\<forall>t e. fst (m t) = Inl e \<longrightarrow> E e)"

definition emits_only :: "'a run \<Rightarrow> (event \<Rightarrow> bool) \<Rightarrow> bool" where
  "emits_only m P = (\<forall>t. \<exists>es. snd (m t) = t @ es \<and> list_all P es)"

record IReleaseAsset =
  name :: string
  url :: string
  browser_download_url :: string

text \<open>The data of a registry response: the fields the action reads.\<close>

record release_data =
  tag_name :: string
  data_assets :: "IReleaseAsset list"

record env =
  os_platform :: string
  os_arch :: string
  core_getInput :: "event list \<Rightarrow> string \<Rightarrow> bool \<Rightarrow> string + string"
  core_isDebug :: "event list \<Rightarrow> bool"
  tools_find :: "event list \<Rightarrow> string \<Rightarrow> string \<Rightarrow> string + string"
  tools_downloadTool :: "event list \<Rightarrow> string \<Rightarrow> string + string"
  tools_extractZip :: "event list \<Rightarrow> string \<Rightarrow> string + string"
  tools_extractTar :: "event list \<Rightarrow> string \<Rightarrow> string + string"
  tools_cacheDir :: "event list \<Rightarrow> string \<Rightarrow> string \<Rightarrow> string \<Rightarrow> string \<Rightarrow> string + string"
  fs_readdirSync :: "event list \<Rightarrow> string \<Rightarrow> string + string list"
  path_join :: "string \<Rightarrow> string \<Rightarrow> string"
  path_basename :: "string \<Rightarrow> string \<Rightarrow> string"
  getExecOutput :: "event list \<Rightarrow> string \<Rightarrow> string list \<Rightarrow> string + string"
  getLatestRelease :: "event list \<Rightarrow> string option \<Rightarrow> string \<Rightarrow> string \<Rightarrow> string + release_data"
  listReleases ::
    "event list \<Rightarrow> string option \<Rightarrow> string \<Rightarrow> string \<Rightarrow> nat \<Rightarrow> string + release_data list"
  getReleaseByTag ::
    "event list \<Rightarrow> string option \<Rightarrow> string \<Rightarrow> string \<Rightarrow> string \<Rightarrow> string + release_data"

section \<open>The action, latest revision (src/unnamed/part\_001)\<close>

subsection \<open>Platform\<close>

datatype os_family = Linux | MacOS | Windows

fun os_family_string :: "os_family \<Rightarrow> string" where
  "os_family_string Linux = ''linux''"
| "os_family_string MacOS = ''macOS''"
| "os_family_string Windows = ''windows''"

definition osPlat :: "string \<Rightarrow> error + os_family" where
  \<comment> \<open>the argument is os.platform()\<close>
  "osPlat platform =
     (if platform = ''linux'' then Inr Linux
      else if platform = ''darwin'' then Inr MacOS
      else if platform = ''win32'' then Inr Windows
      else Inl (UnsupportedPlatform platform))"

definition osArch :: "string \<Rightarrow> string" where
  \<comment> \<open>the argument is os.arch()\<close>
  "osArch arch = (if arch = ''x64'' then ''amd64'' else arch)"

definition toolName :: string where
  "toolName = ''gh-cli''"

definition execName :: "os_family \<Rightarrow> string" where
  "execName plat = (if plat = Windows then ''gh.exe'' else ''gh'')"

subsection \<open>Versions\<close>

record ICleanedVersion =
  versionString :: string

definition cleanedVersion :: "string \<Rightarrow> error + ICleanedVersion" where
  \<comment> \<open>\<open>!semverVersion\<close> holds of null and of the empty string\<close>
  "cleanedVersion version =
     (case semver_clean version of
        None \<Rightarrow> Inl (InvalidVersion version)
      | Some semverVersion \<Rightarrow>
          if semverVersion = [] then Inl (InvalidVersion version)
          else Inr \<lparr>versionString = semverVersion\<rparr>)"

definition assetExtension :: "os_family \<Rightarrow> ICleanedVersion \<Rightarrow> error + string" where
  \<comment> \<open>The macOS assets were changed to zips in 2.28.0.\<close>
  "assetExtension plat version =
     (if plat = Windows then Inr ''zip''
      else if plat \<noteq> MacOS then Inr ''tar.gz''
      else (case semver_compare (versionString version) ''2.28.0'' of
              None \<Rightarrow> Inl TypeError
            | Some c \<Rightarrow> Inr (if c = - 1 then ''tar.gz'' else ''zip'')))"

record RequestedVersion =
  inputVersion :: string
  semverVersion :: "ICleanedVersion option"

definition isStable_static :: "string \<Rightarrow> bool" where
  "isStable_static version = (version = ''stable'')"

definition isLatest_static :: "string \<Rightarrow> bool" where
  "isLatest_static version = (version = ''latest'')"

definition new_RequestedVersion :: "string \<Rightarrow> error + RequestedVersion" where
  \<comment> \<open>the constructor of class RequestedVersion\<close>
  "new_RequestedVersion input =
     (if isStable_static input \<or> isLatest_static input
      then Inr \<lparr>inputVersion = input, semverVersion = None\<rparr>
      else (case cleanedVersion input of
              Inl e \<Rightarrow> Inl e
            | Inr v \<Rightarrow> Inr \<lparr>inputVersion = input, semverVersion = Some v\<rparr>))"

definition isStable :: "RequestedVersion \<Rightarrow> bool" where
  "isStable this = isStable_static (inputVersion this)"

definition isLatest :: "RequestedVersion \<Rightarrow> bool" where
  "isLatest this = isLatest_static (inputVersion this)"

definition get_cleanedVersion :: "RequestedVersion \<Rightarrow> error + ICleanedVersion" where
  \<comment> \<open>the getter cleanedVersion of class RequestedVersion\<close>
  "get_cleanedVersion this =
     (if isStable this \<or> isLatest this then Inl (NotAnExactVersion (inputVersion this))
      else (case semverVersion this of
              None \<Rightarrow> Inl (NotAnExactVersion (inputVersion this))
            | Some v \<Rightarrow> Inr v))"

definition tagName :: "RequestedVersion \<Rightarrow> error + string" where
  "tagName this =
     (case get_cleanedVersion this of
        Inl e \<Rightarrow> Inl e
      | Inr v \<Rightarrow> Inr (''v'' @ versionString v))"

text \<open>
  Interface IInstalledVersion; its fields \<open>version\<close> and \<open>path\<close> are
  \<open>installed_version\<close> and \<open>installed_path\<close> here.
\<close>

record IInstalledVersion =
  installed_version :: ICleanedVersion
  installed_path :: string

text \<open>Interface IRelease; its field \<open>version\<close> is \<open>release_version\<close> here.\<close>

record IRelease =
  release_version :: ICleanedVersion
  assets :: "IReleaseAsset list"

subsection \<open>Verification and output\<close>

fun indexOf_from :: "string \<Rightarrow> string \<Rightarrow> int \<Rightarrow> int" where
  "indexOf_from [] t i = (if t = [] then i else - 1)"
| "indexOf_from (c # cs) t i = (if prefix t (c # cs) then i else indexOf_from cs t (i + 1))"

definition indexOf :: "string \<Rightarrow> string \<Rightarrow> int" where
  \<comment> \<open>String.prototype.indexOf: the first position of \<open>t\<close> in \<open>s\<close>, or -1\<close>
  "indexOf s t = indexOf_from s t 0"

text \<open>
  The body of \<open>setAndCheckOutput\<close> in two parts: the debug output, and the check of the
  installed executable with the publication of the output.
\<close>

definition debug_installation :: "env \<Rightarrow> IInstalledVersion \<Rightarrow> unit run" where
  "debug_installation env installedVersion =
     seq (call IsDebug (\<lambda>t. Inr (core_isDebug env t))) (\<lambda>isDebug.
     if isDebug
     then seq (effect (Debug (''Installed version: ''
                                @ versionString (installed_version installedVersion)))) (\<lambda>_.
          seq (effect (Debug (''Installed path: '' @ installed_path installedVersion))) (\<lambda>_.
          seq (effect (Debug ''Contents of path:'')) (\<lambda>_.
          seq (call (ReaddirSync (installed_path installedVersion))
                 (\<lambda>t. fs_readdirSync env t (installed_path installedVersion))) (\<lambda>contents.
          effect (Debug (join [CHR 0x0A] contents))))))
     else return_run ())"

definition check_installation :: "env \<Rightarrow> os_family \<Rightarrow> IInstalledVersion \<Rightarrow> unit run" where
  "check_installation env plat installedVersion =
     seq (effect (AddPath (path_join env (installed_path installedVersion) ''bin''))) (\<lambda>_.
     seq (call (GetExecOutput (execName plat) [''version''])
            (\<lambda>t. getExecOutput env t (execName plat) [''version''])) (\<lambda>stdout.
     if indexOf stdout (versionString (installed_version installedVersion)) < 0
     then throw (VerificationFailed (versionString (installed_version installedVersion)) stdout)
     else effect (SetOutput ''installed-version''
                    (versionString (installed_version installedVersion)))))"

definition setAndCheckOutput :: "env \<Rightarrow> os_family \<Rightarrow> IInstalledVersion \<Rightarrow> unit run" where
  "setAndCheckOutput env plat installedVersion =
     group ''Checking installation''
      (seq (debug_installation env installedVersion) (\<lambda>_.
       check_installation env plat installedVersion))"

subsection \<open>Release resolution\<close>

text \<open>
  Array.prototype.sort is stable, and a comparison function that throws ends it with
  that error. With a consistent comparison function its result is the stable insertion
  sort below; \<open>None\<close> is the error of the comparison function.
\<close>

fun insert_sorted :: "('a \<Rightarrow> 'a \<Rightarrow> int option) \<Rightarrow> 'a \<Rightarrow> 'a list \<Rightarrow> 'a list option" where
  "insert_sorted comparefn x [] = Some [x]"
| "insert_sorted comparefn x (y # ys) =
     (case comparefn x y of
        None \<Rightarrow> None
      | Some c \<Rightarrow>
          if c \<le> 0 then Some (x # y # ys)
          else (case insert_sorted comparefn x ys of None \<Rightarrow> None | Some zs \<Rightarrow> Some (y # zs)))"

fun Array_sort :: "('a \<Rightarrow> 'a \<Rightarrow> int option) \<Rightarrow> 'a list \<Rightarrow> 'a list option" where
  "Array_sort comparefn [] = Some []"
| "Array_sort comparefn (x # xs) =
     (case Array_sort comparefn xs of
        None \<Rightarrow> None
      | Some ys \<Rightarrow> insert_sorted comparefn x ys)"

fun valid_releases :: "release_data list \<Rightarrow> IRelease list" where
  \<comment> \<open>the forEach loop of findMatchingRelease: push, or catch and go on\<close>
  "valid_releases [] = []"
| "valid_releases (r # rs) =
     (case cleanedVersion (tag_name r) of
        Inl e \<Rightarrow> valid_releases rs
      | Inr v \<Rightarrow> \<lparr>release_version = v, assets = data_assets r\<rparr> # valid_releases rs)"

definition latest_first :: "IRelease \<Rightarrow> IRelease \<Rightarrow> int option" where
  \<comment> \<open>the comparison function \<open>(l, r) => semver_compare(r.version.versionString,
      l.version.versionString)\<close>\<close>
  "latest_first l r =
     semver_compare (versionString (release_version r)) (versionString (release_version l))"

definition findMatchingRelease :: "env \<Rightarrow> RequestedVersion \<Rightarrow> string option \<Rightarrow> IRelease run" where
  "findMatchingRelease env version token =
     (if isStable version then
        seq (call (GetLatestRelease token ''cli'' ''cli'')
               (\<lambda>t. getLatestRelease env t token ''cli'' ''cli'')) (\<lambda>latestRelease.
        seq (lift (cleanedVersion (tag_name latestRelease))) (\<lambda>v.
        return_run \<lparr>release_version = v, assets = data_assets latestRelease\<rparr>))
      else if isLatest version then
        seq (call (ListReleases token ''cli'' ''cli'' 100)
               (\<lambda>t. listReleases env t token ''cli'' ''cli'' 100)) (\<lambda>releasesResp.
        let releases = valid_releases releasesResp in
        if length releases \<le> 0 then throw NoMatchingRelease
        else (case Array_sort latest_first releases of
                None \<Rightarrow> throw TypeError
              | Some [] \<Rightarrow> throw TypeError
              | Some (first # _) \<Rightarrow> return_run first))
      else
        seq (lift (tagName version)) (\<lambda>tag.
        seq (call (GetReleaseByTag token ''cli'' ''cli'' tag)
               (\<lambda>t. getReleaseByTag env t token ''cli'' ''cli'' tag)) (\<lambda>release.
        seq (lift (cleanedVersion (tag_name release))) (\<lambda>v.
        return_run \<lparr>release_version = v, assets = data_assets release\<rparr>))))"

subsection \<open>Installation and cache\<close>

definition Array_includes :: "string list \<Rightarrow> string \<Rightarrow> bool" where
  \<comment> \<open>Array.prototype.includes\<close>
  "Array_includes xs x = (x \<in> set xs)"

text \<open>
  Two parts of the body of \<open>install\<close> have a name here: the switch on the extension,
  and the search for the directory that holds \<open>bin\<close>.
\<close>

definition extract_archive :: "env \<Rightarrow> string \<Rightarrow> string \<Rightarrow> string run" where
  \<comment> \<open>the switch statement of \<open>install\<close>\<close>
  "extract_archive env extension downloadedPath =
     (if extension = ''zip''
      then call (ExtractZip downloadedPath) (\<lambda>t. tools_extractZip env t downloadedPath)
      else if extension = ''tar.gz''
      then call (ExtractTar downloadedPath) (\<lambda>t. tools_extractTar env t downloadedPath)
      else throw (UnsupportedExtension extension))"

definition resolve_directory :: "env \<Rightarrow> IReleaseAsset \<Rightarrow> string \<Rightarrow> string \<Rightarrow> string run" where
  \<comment> \<open>from \<open>assetNameWithoutExtension\<close> to the check for \<open>bin\<close>; returns \<open>extractedPath\<close>\<close>
  "resolve_directory env asset extension extractedPath =
     (let assetNameWithoutExtension = path_basename env (name asset) (''.'' @ extension) in
      seq (call (ReaddirSync extractedPath) (\<lambda>t. fs_readdirSync env t extractedPath)) (\<lambda>contents.
      seq (if \<not> Array_includes contents ''bin''
              \<and> Array_includes contents assetNameWithoutExtension
           then seq (call (ReaddirSync (path_join env extractedPath assetNameWithoutExtension))
                       (\<lambda>t. fs_readdirSync env t
                               (path_join env extractedPath assetNameWithoutExtension)))
                  (\<lambda>contents'.
                return_run (path_join env extractedPath assetNameWithoutExtension, contents'))
           else return_run (extractedPath, contents)) (\<lambda>(extractedPath, contents).
      if \<not> Array_includes contents ''bin''
      then seq (effect (Debug (''Contents:'' @ [CHR 0x0A] @ join [CHR 0x0A] contents))) (\<lambda>_.
           throw NoExecutableFound)
      else return_run extractedPath)))"

definition install :: "env \<Rightarrow> os_family \<Rightarrow> IReleaseAsset \<Rightarrow> ICleanedVersion \<Rightarrow> IInstalledVersion run" where
  "install env plat asset version =
     seq (call (DownloadTool (browser_download_url asset))
            (\<lambda>t. tools_downloadTool env t (browser_download_url asset))) (\<lambda>downloadedPath.
     seq (lift (assetExtension plat version)) (\<lambda>extension.
     seq (extract_archive env extension downloadedPath) (\<lambda>extractedPath.
     seq (resolve_directory env asset extension extractedPath) (\<lambda>extractedPath.
     seq (call (CacheDir extractedPath (execName plat) toolName (versionString version))
            (\<lambda>t. tools_cacheDir env t extractedPath (execName plat) toolName
                    (versionString version))) (\<lambda>cachedPath.
     return_run \<lparr>installed_version = version, installed_path = cachedPath\<rparr>)))))"

definition checkCache :: "env \<Rightarrow> ICleanedVersion \<Rightarrow> IInstalledVersion option run" where
  \<comment> \<open>tools.find returns the empty string when nothing is cached\<close>
  "checkCache env version =
     seq (call (Find toolName (versionString version))
            (\<lambda>t. tools_find env t toolName (versionString version))) (\<lambda>cachedVersion.
     if cachedVersion = [] then return_run None
     else seq (effect (Info ''Found cached version.'')) (\<lambda>_.
          return_run (Some \<lparr>installed_version = version, installed_path = cachedVersion\<rparr>)))"

subsection \<open>The orchestrator\<close>

text \<open>The bodies of the three groups of \<open>main\<close>, in the order of the source.\<close>

definition checking_cache :: "env \<Rightarrow> RequestedVersion \<Rightarrow> IInstalledVersion option run" where
  "checking_cache env version =
     (if \<not> isStable version \<and> \<not> isLatest version
      then seq (lift (get_cleanedVersion version)) (\<lambda>v. checkCache env v)
      else return_run None)"

definition fetching_release ::
  "env \<Rightarrow> RequestedVersion \<Rightarrow> string option \<Rightarrow> (IRelease \<times> IInstalledVersion option) run" where
  \<comment> \<open>the release is assigned to a variable of \<open>main\<close>: it is returned with the result\<close>
  "fetching_release env version ghToken =
     seq (findMatchingRelease env version ghToken) (\<lambda>release.
     seq (checkCache env (release_version release)) (\<lambda>installedVersion.
     return_run (release, installedVersion)))"

definition assetName :: "env \<Rightarrow> os_family \<Rightarrow> ICleanedVersion \<Rightarrow> string \<Rightarrow> string" where
  \<comment> \<open>the template literal of the third group, with the extension already computed\<close>
  "assetName env plat v extension =
     ''gh_'' @ versionString v @ ''_'' @ os_family_string plat @ ''_'' @ osArch (os_arch env)
       @ ''.'' @ extension"

definition installing_release :: "env \<Rightarrow> os_family \<Rightarrow> IRelease \<Rightarrow> IInstalledVersion run" where
  "installing_release env plat release =
     seq (lift (assetExtension plat (release_version release))) (\<lambda>extension.
     case find (\<lambda>a. name a = assetName env plat (release_version release) extension)
            (assets release) of
       None \<Rightarrow> throw (AssetNotFound (assetName env plat (release_version release) extension))
     | Some asset \<Rightarrow> install env plat asset (release_version release))"

definition validate_input :: "env \<Rightarrow> (RequestedVersion \<times> string option) run" where
  \<comment> \<open>the first statements of \<open>main\<close>, between startGroup and endGroup;
      \<open>core.getInput(...) || null\<close> is null for the empty string\<close>
  "validate_input env =
     seq (effect (StartGroup ''Validate input'')) (\<lambda>_.
     seq (call (GetInput ''version'') (\<lambda>t. core_getInput env t ''version'' True)) (\<lambda>input.
     seq (lift (new_RequestedVersion input)) (\<lambda>version.
     seq (call (GetInput ''github-token'')
            (\<lambda>t. core_getInput env t ''github-token'' False)) (\<lambda>token.
     seq (effect EndGroup) (\<lambda>_.
     return_run (version, if token = [] then None else Some token))))))"

definition main_steps :: "env \<Rightarrow> os_family \<Rightarrow> RequestedVersion \<Rightarrow> string option \<Rightarrow> unit run" where
  \<comment> \<open>the rest of \<open>main\<close>: the three groups and their early returns\<close>
  "main_steps env plat version ghToken =
     seq (group ''Checking cache'' (checking_cache env version)) (\<lambda>installedVersion.
     (case installedVersion of
        Some installed \<Rightarrow> setAndCheckOutput env plat installed
      | None \<Rightarrow>
          seq (group ''Fetching release'' (fetching_release env version ghToken))
            (\<lambda>(release, installedVersion).
          (case installedVersion of
             Some installed \<Rightarrow> setAndCheckOutput env plat installed
           | None \<Rightarrow>
               seq (group ''Installing release'' (installing_release env plat release))
                 (\<lambda>installedVersion.
               setAndCheckOutput env plat installedVersion)))))"

definition main :: "env \<Rightarrow> os_family \<Rightarrow> unit run" where
  "main env plat =
     seq (validate_input env) (\<lambda>(version, ghToken). main_steps env plat version ghToken)"

text \<open>
  The module computes \<open>osPlat\<close> when it is loaded, before \<open>main\<close> runs: an unsupported
  platform ends the process there.
\<close>

definition action :: "env \<Rightarrow> unit run" where
  "action env =
     seq (lift (osPlat (os_platform env))) (\<lambda>plat. main env plat)"

section \<open>The earlier revision (src/unnamed/part\_000): versions, cache check, installation\<close>

text \<open>
  The earlier revision keeps versions as plain strings. Its definitions carry the suffix
  \<open>_prev\<close>.
\<close>

definition cleanedVersion_prev :: "string \<Rightarrow> error + string" where
  "cleanedVersion_prev version =
     (case semver_clean version of
        None \<Rightarrow> Inl (InvalidVersion version)
      | Some cleaned \<Rightarrow>
          if cleaned = [] then Inl (InvalidVersion version) else Inr cleaned)"

record RequestedVersion_prev =
  inputVersion_prev :: string
  semverVersion_prev :: "string option"

definition new_RequestedVersion_prev :: "string \<Rightarrow> error + RequestedVersion_prev" where
  "new_RequestedVersion_prev input =
     (if isStable_static input \<or> isLatest_static input
      then Inr \<lparr>inputVersion_prev = input, semverVersion_prev = None\<rparr>
      else (case cleanedVersion_prev input of
              Inl e \<Rightarrow> Inl e
            | Inr v \<Rightarrow> Inr \<lparr>inputVersion_prev = input, semverVersion_prev = Some v\<rparr>))"

definition isStable_prev :: "RequestedVersion_prev \<Rightarrow> bool" where
  "isStable_prev this = isStable_static (inputVersion_prev this)"

definition isLatest_prev :: "RequestedVersion_prev \<Rightarrow> bool" where
  "isLatest_prev this = isLatest_static (inputVersion_prev this)"

definition tagName_prev :: "RequestedVersion_prev \<Rightarrow> error + string" where
  \<comment> \<open>\<open>!this.semverVersion\<close> holds of null and of the empty string;
      the message is \<open>Cannot get tag name for ${inputVersion}\<close>\<close>
  "tagName_prev this =
     (if isStable_prev this \<or> isLatest_prev this
      then Inl (NotAnExactVersion (inputVersion_prev this))
      else (case semverVersion_prev this of
              None \<Rightarrow> Inl (NotAnExactVersion (inputVersion_prev this))
            | Some v \<Rightarrow>
                if v = [] then Inl (NotAnExactVersion (inputVersion_prev this))
                else Inr (''v'' @ v)))"

record IInstalledVersion_prev =
  version_prev :: string
  path_prev :: string

definition checkCache_prev :: "env \<Rightarrow> string \<Rightarrow> IInstalledVersion_prev option run" where
  "checkCache_prev env version =
     seq (lift (cleanedVersion_prev version)) (\<lambda>cleaned.
     seq (call (Find toolName cleaned)
            (\<lambda>t. tools_find env t toolName cleaned)) (\<lambda>cachedVersion.
     if cachedVersion \<noteq> []
     then seq (effect (Info ''Found cached version.'')) (\<lambda>_.
          return_run (Some \<lparr>version_prev = cleaned, path_prev = cachedVersion\<rparr>))
     else return_run None))"

definition checking_cache_prev ::
  "env \<Rightarrow> RequestedVersion_prev \<Rightarrow> IInstalledVersion_prev option run" where
  \<comment> \<open>the body of the first group of the earlier \<open>main\<close>\<close>
  "checking_cache_prev env version =
     (if \<not> isStable_prev version \<and> \<not> isLatest_prev version
      then seq (lift (tagName_prev version)) (\<lambda>tag. checkCache_prev env tag)
      else return_run None)"

definition assetExtension_prev :: "os_family \<Rightarrow> string \<Rightarrow> error + string" where
  \<comment> \<open>the function \<open>assetExtension\<close> of the earlier revision: it cleans its argument again\<close>
  "assetExtension_prev plat version =
     (if plat = Windows then Inr ''zip''
      else if plat \<noteq> MacOS then Inr ''tar.gz''
      else (case cleanedVersion_prev version of
              Inl e \<Rightarrow> Inl e
            | Inr cleaned \<Rightarrow>
                (case semver_compare cleaned ''2.28.0'' of
                   None \<Rightarrow> Inl TypeError
                 | Some c \<Rightarrow> Inr (if c = - 1 then ''tar.gz'' else ''zip''))))"

definition install_prev ::
  "env \<Rightarrow> os_family \<Rightarrow> IReleaseAsset \<Rightarrow> string \<Rightarrow> IInstalledVersion_prev run" where
  \<comment> \<open>\<open>install\<close> of the earlier revision: a tar archive is always entered by the folder
      named after the asset\<close>
  "install_prev env plat asset version =
     seq (call (DownloadTool (browser_download_url asset))
            (\<lambda>t. tools_downloadTool env t (browser_download_url asset))) (\<lambda>downloadedPath.
     seq (lift (assetExtension_prev plat version)) (\<lambda>extension.
     seq (if extension = ''zip''
          then call (ExtractZip downloadedPath) (\<lambda>t. tools_extractZip env t downloadedPath)
          else if extension = ''tar.gz''
          then seq (call (ExtractTar downloadedPath)
                      (\<lambda>t. tools_extractTar env t downloadedPath)) (\<lambda>extractedPath.
               return_run (path_join env extractedPath
                             (path_basename env (name asset) (''.'' @ extension))))
          else throw (UnsupportedExtension extension)) (\<lambda>extractedPath.
     seq (call (CacheDir extractedPath (execName plat) toolName version)
            (\<lambda>t. tools_cacheDir env t extractedPath (execName plat) toolName version))
       (\<lambda>cachedPath.
     return_run \<lparr>version_prev = version, path_prev = cachedPath\<rparr>))))"

text \<open>
  The body of the third group of the earlier \<open>main\<close>. Its template literal ends with
  \<open>${assetExtension}\<close>: the function itself, not a call of it. JavaScript converts a
  function in a template literal to its source text; that text is the parameter
  \<open>assetExtension_text\<close> here. The release is the data of the registry response.
\<close>

definition installing_release_prev ::
  "env \<Rightarrow> os_family \<Rightarrow> string \<Rightarrow> release_data \<Rightarrow> IInstalledVersion_prev run" where
  "installing_release_prev env plat assetExtension_text release =
     seq (lift (cleanedVersion_prev (tag_name release))) (\<lambda>version.
     let assetName = ''gh_'' @ version @ ''_'' @ os_family_string plat @ ''_''
                       @ osArch (os_arch env) @ ''.'' @ assetExtension_text in
     case find (\<lambda>a. name a = assetName) (data_assets release) of
       None \<Rightarrow> throw (AssetNotFound assetName)
     | Some asset \<Rightarrow> install_prev env plat asset version)"

section \<open>Observations and an example environment\<close>

text \<open>What a run has published: the outputs set, in order.\<close>

fun outputs :: "event list \<Rightarrow> (string \<times> string) list" where
  "outputs [] = []"
| "outputs (SetOutput n x # es) = (n, x) # outputs es"
| "outputs (e # es) = outputs es"

text \<open>
  The calls of the registry, download, extraction and cache-registration collaborators:
  the calls of release resolution and of installation.
\<close>

fun resolution_or_installation :: "event \<Rightarrow> bool" where
  "resolution_or_installation (GetLatestRelease token owner repo) = True"
| "resolution_or_installation (ListReleases token owner repo n) = True"
| "resolution_or_installation (GetReleaseByTag token owner repo tag) = True"
| "resolution_or_installation (DownloadTool u) = True"
| "resolution_or_installation (ExtractZip p) = True"
| "resolution_or_installation (ExtractTar p) = True"
| "resolution_or_installation (CacheDir p e n v) = True"
| "resolution_or_installation e = False"

fun quiet_after_hit :: "event list \<Rightarrow> bool" where
  \<comment> \<open>after the message of a cache hit, no call of resolution or installation\<close>
  "quiet_after_hit [] = True"
| "quiet_after_hit (e # es) =
     (if e = Info ''Found cached version.''
      then list_all (\<lambda>e. \<not> resolution_or_installation e) es
      else quiet_after_hit es)"

text \<open>
  An example host for concrete runs: linux on x64, an empty tool cache, a registry whose
  latest stable release is v2.40.0 and whose release list is the one of the spec's test,
  and an archive that nests its files in a folder named after the asset.
\<close>

definition example_assets :: "string \<Rightarrow> IReleaseAsset list" where
  "example_assets v =
     [\<lparr>name = ''gh_'' @ v @ ''_linux_amd64.tar.gz'', url = ''https://api.example/1'',
       browser_download_url = ''https://example/gh_'' @ v @ ''_linux_amd64.tar.gz''\<rparr>,
      \<lparr>name = ''gh_'' @ v @ ''_macOS_amd64.zip'', url = ''https://api.example/2'',
       browser_download_url = ''https://example/gh_'' @ v @ ''_macOS_amd64.zip''\<rparr>]"

definition example_releases :: "release_data list" where
  "example_releases =
     [\<lparr>tag_name = ''v2.0.0'', data_assets = example_assets ''2.0.0''\<rparr>,
      \<lparr>tag_name = ''not-a-version'', data_assets = []\<rparr>,
      \<lparr>tag_name = ''v1.9.9'', data_assets = example_assets ''1.9.9''\<rparr>,
      \<lparr>tag_name = ''v2.0.0-rc1'', data_assets = example_assets ''2.0.0-rc1''\<rparr>]"

definition example_basename :: "string \<Rightarrow> string \<Rightarrow> string" where
  \<comment> \<open>path.basename on a name without separators: the suffix is dropped\<close>
  "example_basename p ext =
     (if prefix (rev ext) (rev p) \<and> p \<noteq> ext then take (length p - length ext) p else p)"

definition example_env :: env where
  "example_env =
     \<lparr>os_platform = ''linux'', os_arch = ''x64'',
      core_getInput = (\<lambda>t n required. if n = ''version'' then Inr ''stable'' else Inr []),
      core_isDebug = (\<lambda>t. False),
      tools_find = (\<lambda>t tool v. Inr []),
      tools_downloadTool = (\<lambda>t u. Inr ''/tmp/download''),
      tools_extractZip = (\<lambda>t p. Inr ''/tmp/extracted''),
      tools_extractTar = (\<lambda>t p. Inr ''/tmp/extracted''),
      tools_cacheDir = (\<lambda>t p e tool v. Inr (''/opt/hostedtoolcache/'' @ tool @ ''/'' @ v)),
      fs_readdirSync = (\<lambda>t p. if p = ''/tmp/extracted'' then Inr [''gh_2.40.0_linux_amd64'']
                             else if p = ''/tmp/extracted/gh_2.40.0_linux_amd64''
                             then Inr [''LICENSE'', ''bin'', ''share'']
                             else Inl ''ENOENT''),
      path_join = (\<lambda>a b. a @ ''/'' @ b),
      path_basename = example_basename,
      getExecOutput = (\<lambda>t e args. Inr ''gh version 2.40.0 (2023-12-07)''),
      getLatestRelease = (\<lambda>t token owner repo.
         Inr \<lparr>tag_name = ''v2.40.0'', data_assets = example_assets ''2.40.0''\<rparr>),
      listReleases = (\<lambda>t token owner repo n. Inr example_releases),
      getReleaseByTag = (\<lambda>t token owner repo tag.
         if tag = ''v2.40.0''
         then Inr \<lparr>tag_name = ''v2.40.0'', data_assets = example_assets ''2.40.0''\<rparr>
         else Inl ''Not Found'')\<rparr>"

section \<open>Properties of the version functions\<close>

subsection \<open>Digits, numbers and splitting\<close>

declare number_to_string.simps [simp del]

lemma is_digit_code: "is_digit c \<longleftrightarrow> 48 \<le> (of_char c :: int) \<and> (of_char c :: int) \<le> 57"
proof -
  have "(of_char c :: int) = int (of_char c)" by (rule of_nat_of_char [symmetric])
  moreover have "is_digit c \<longleftrightarrow> 48 \<le> (of_char c :: nat) \<and> (of_char c :: nat) \<le> 57"
    by (simp add: is_digit_def less_eq_char_def)
  ultimately show ?thesis by linarith
qed

lemma digit_char_0: "digit_char 0 = CHR ''0''"
  unfolding digit_char_def by code_simp

lemma digit_value_range: "is_digit c \<Longrightarrow> 0 \<le> digit_value c \<and> digit_value c < 10"
  by (auto simp: is_digit_code digit_value_def)

lemma digit_char_digit_value: "is_digit c \<Longrightarrow> digit_char (digit_value c) = c"
proof -
  assume d: "is_digit c"
  have "48 + digit_value c = (of_char c :: int)"
    by (simp add: digit_value_def)
  then have "digit_char (digit_value c) = char_of (of_char c :: int)"
    by (simp only: digit_char_def)
  also have "\<dots> = c"
    by simp
  finally show ?thesis .
qed

lemma digit_value_zero: "is_digit c \<Longrightarrow> digit_value c = 0 \<longleftrightarrow> c = CHR ''0''"
proof -
  assume d: "is_digit c"
  show ?thesis
  proof
    assume "digit_value c = 0"
    then have "digit_char (digit_value c) = digit_char 0" by simp
    then have "c = digit_char 0" using d by (simp only: digit_char_digit_value)
    then show "c = CHR ''0''" by (simp only: digit_char_0)
  next
    assume "c = CHR ''0''"
    then show "digit_value c = 0" by (simp add: digit_value_def)
  qed
qed

lemma to_number_snoc: "to_number (ds @ [d]) = 10 * to_number ds + digit_value d"
  by (simp add: to_number_def)

lemma to_number_nonneg: "list_all is_digit ds \<Longrightarrow> 0 \<le> to_number ds"
  by (induction ds rule: rev_induct) (auto simp: to_number_snoc dest: digit_value_range, simp add: to_number_def)

lemma to_number_positive:
  "ds \<noteq> [] \<Longrightarrow> list_all is_digit ds \<Longrightarrow> hd ds \<noteq> CHR ''0'' \<Longrightarrow> 1 \<le> to_number ds"
proof (induction ds rule: rev_induct)
  case Nil
  then show ?case by simp
next
  case (snoc d ds)
  show ?case
  proof (cases "ds = []")
    case True
    with snoc.prems have "is_digit d" "d \<noteq> CHR ''0''" by auto
    then have "digit_value d \<noteq> 0" "0 \<le> digit_value d"
      using digit_value_zero digit_value_range by auto
    then show ?thesis using True by (simp add: to_number_def)
  next
    case False
    with snoc have "1 \<le> to_number ds" by auto
    moreover have "0 \<le> digit_value d" using snoc.prems digit_value_range by auto
    ultimately show ?thesis by (simp add: to_number_snoc)
  qed
qed

lemma number_to_string_to_number:
  "ds \<noteq> [] \<Longrightarrow> list_all is_digit ds \<Longrightarrow> hd ds \<noteq> CHR ''0'' \<Longrightarrow>
   number_to_string (to_number ds) = ds"
proof (induction ds rule: rev_induct)
  case Nil
  then show ?case by simp
next
  case (snoc d ds)
  have d: "is_digit d" using snoc.prems by simp
  then have r: "0 \<le> digit_value d" "digit_value d < 10" using digit_value_range by auto
  show ?case
  proof (cases "ds = []")
    case True
    then have "to_number (ds @ [d]) = digit_value d" by (simp add: to_number_def)
    then show ?thesis
      using True r d by (simp add: number_to_string.simps digit_char_digit_value)
  next
    case False
    with snoc.prems have p: "list_all is_digit ds" "hd ds \<noteq> CHR ''0''" by auto
    then have ih: "number_to_string (to_number ds) = ds" using snoc.IH False by simp
    have pos: "1 \<le> to_number ds" using to_number_positive [OF False p] .
    have n: "to_number (ds @ [d]) = 10 * to_number ds + digit_value d"
      by (rule to_number_snoc)
    have "\<not> to_number (ds @ [d]) < 10" using pos r n by simp
    moreover have "to_number (ds @ [d]) div 10 = to_number ds" using r n by simp
    moreover have "to_number (ds @ [d]) mod 10 = digit_value d" using r n by simp
    ultimately show ?thesis
      using ih d by (simp add: number_to_string.simps [of "to_number (ds @ [d])"] digit_char_digit_value)
  qed
qed

lemma number_to_string_numeric:
  assumes n: "numeric_identifier a"
  shows "number_to_string (to_number a) = a"
proof (cases a)
  case Nil
  then show ?thesis using n by (simp add: numeric_identifier_def)
next
  case (Cons c cs)
  show ?thesis
  proof (cases "c = CHR ''0''")
    case True
    with n Cons have "a = ''0''" by (simp add: numeric_identifier_def)
    then show ?thesis by (simp add: to_number_def digit_value_def number_to_string.simps digit_char_0)
  next
    case False
    with n Cons show ?thesis
      by (intro number_to_string_to_number) (auto simp: numeric_identifier_def)
  qed
qed

lemma split_on_not_Nil: "split_on sep s \<noteq> []"
  by (induction s) (auto split: list.splits)

lemma join_Cons_Cons: "join sep ((c # a) # list) = c # join sep (a # list)"
  by (cases list) simp_all

lemma join_split_on: "join [sep] (split_on sep s) = s"
proof (induction s)
  case Nil
  then show ?case by simp
next
  case (Cons c cs)
  then show ?case
    by (cases "split_on sep cs") (auto split: list.splits simp: join_Cons_Cons)
qed

lemma split_on_chars: "p \<in> set (split_on sep s) \<Longrightarrow> c \<in> set p \<Longrightarrow> c \<in> set s"
proof (induction s arbitrary: p)
  case Nil
  then show ?case by simp
next
  case (Cons a s)
  show ?case
  proof (cases "a = sep")
    case True
    with Cons show ?thesis by auto
  next
    case False
    obtain q qs where q: "split_on sep s = q # qs"
      using split_on_not_Nil [of sep s] by (cases "split_on sep s") auto
    with False Cons.prems have "p = a # q \<or> p \<in> set qs" by auto
    then show ?thesis
    proof
      assume "p = a # q"
      with Cons.prems(2) have "c = a \<or> c \<in> set q" by auto
      then show ?thesis using Cons.IH [of q] q by auto
    next
      assume "p \<in> set qs"
      then show ?thesis using Cons.IH [of p] Cons.prems(2) q by auto
    qed
  qed
qed

lemma chars_of_split_on: "c \<in> set s \<Longrightarrow> c = sep \<or> (\<exists>p \<in> set (split_on sep s). c \<in> set p)"
  by (induction s) (auto split: list.splits if_splits)

lemma match_MAIN_PRERELEASE_parts:
  assumes "match_MAIN_PRERELEASE core = Some (a, b, c, m4)"
  shows "numeric_identifier a \<and> numeric_identifier b \<and> numeric_identifier c
    \<and> (case m4 of None \<Rightarrow> True | Some p \<Rightarrow> list_all prerelease_identifier (split_on CHR ''.'' p))
    \<and> core = a @ ''.'' @ b @ ''.'' @ c @ (case m4 of None \<Rightarrow> [] | Some p \<Rightarrow> CHR ''-'' # p)"
proof -
  define main where "main = takeWhile (\<lambda>c. c \<noteq> CHR ''-'') core"
  define pre where "pre = dropWhile (\<lambda>c. c \<noteq> CHR ''-'') core"
  have m: "(if pre \<noteq> [] \<and> \<not> list_all prerelease_identifier (split_on CHR ''.'' (tl pre))
         then None
         else (case split_on CHR ''.'' main of
                 [a, b, c] \<Rightarrow>
                   if numeric_identifier a \<and> numeric_identifier b \<and> numeric_identifier c
                   then Some (a, b, c, if pre = [] then None else Some (tl pre))
                   else None
               | _ \<Rightarrow> None)) = Some (a, b, c, m4)"
    using assms unfolding match_MAIN_PRERELEASE_def Let_def main_def pre_def .
  then have pre_ok: "pre = [] \<or> list_all prerelease_identifier (split_on CHR ''.'' (tl pre))"
    by (auto split: if_splits)
  from m have sp: "split_on CHR ''.'' main = [a, b, c]"
    and num: "numeric_identifier a \<and> numeric_identifier b \<and> numeric_identifier c"
    and m4: "m4 = (if pre = [] then None else Some (tl pre))"
    by (auto split: if_splits list.splits)
  have "main = join ''.'' (split_on CHR ''.'' main)" by (simp add: join_split_on)
  then have main_eq: "main = a @ ''.'' @ b @ ''.'' @ c" using sp by simp
  have pre_eq: "pre = (case m4 of None \<Rightarrow> [] | Some p \<Rightarrow> CHR ''-'' # p)"
  proof (cases "pre = []")
    case True
    then show ?thesis using m4 by simp
  next
    case False
    then obtain x xs where px: "pre = x # xs" by (cases pre) auto
    have "\<not> hd pre \<noteq> CHR ''-''"
      using hd_dropWhile [of "\<lambda>c. c \<noteq> CHR ''-''" core] False unfolding pre_def by blast
    then have "x = CHR ''-''" using px by simp
    then show ?thesis using m4 px by simp
  qed
  have "core = main @ pre" by (simp add: main_def pre_def)
  then have "core = a @ ''.'' @ b @ ''.'' @ c @ (case m4 of None \<Rightarrow> [] | Some p \<Rightarrow> CHR ''-'' # p)"
    using main_eq pre_eq by simp
  moreover have "case m4 of None \<Rightarrow> True | Some p \<Rightarrow> list_all prerelease_identifier (split_on CHR ''.'' p)"
    using pre_ok m4 by (auto split: option.splits)
  ultimately show ?thesis using num by simp
qed

lemma numeric_identifier_digits: "numeric_identifier a \<Longrightarrow> a \<noteq> [] \<and> list_all is_digit a"
  by (cases a) (auto simp: numeric_identifier_def)

lemma is_digit_not_special: "is_digit c \<Longrightarrow> c \<noteq> CHR ''v'' \<and> c \<noteq> CHR ''='' \<and> c \<noteq> CHR ''+''"
  by (auto simp: is_digit_code)

lemma match_FULL_core:
  assumes "match_FULL s = Some r"
  shows "match_MAIN_PRERELEASE (takeWhile (\<lambda>c. c \<noteq> CHR ''+'')
           (case s of [] \<Rightarrow> [] | c # cs \<Rightarrow> if c = CHR ''v'' then cs else s)) = Some r"
  using assms unfolding match_FULL_def Let_def by (simp split: if_splits)

lemma match_FULL_of_core:
  assumes "match_MAIN_PRERELEASE core = Some r" and "CHR ''+'' \<notin> set core"
  shows "match_FULL core = Some r"
proof -
  obtain a b c m4 where r: "r = (a, b, c, m4)" by (cases r) auto
  have parts: "core = a @ ''.'' @ b @ ''.'' @ c @ (case m4 of None \<Rightarrow> [] | Some p \<Rightarrow> CHR ''-'' # p)"
    and a: "numeric_identifier a"
    using match_MAIN_PRERELEASE_parts [of core a b c m4] assms r by simp_all
  from a have "a \<noteq> []" "is_digit (hd a)"
    using numeric_identifier_digits [of a] by (cases a; simp)+
  then have "core \<noteq> []" "hd core = hd a" using parts by auto
  then have hd: "hd core \<noteq> CHR ''v''" using \<open>is_digit (hd a)\<close> is_digit_not_special by auto
  have strip: "(case core of [] \<Rightarrow> [] | c # cs \<Rightarrow> if c = CHR ''v'' then cs else core) = core"
    using hd \<open>core \<noteq> []\<close> by (cases core) auto
  have tw: "takeWhile (\<lambda>c. c \<noteq> CHR ''+'') core = core"
    using assms(2) by (induction core) auto
  have dw: "dropWhile (\<lambda>c. c \<noteq> CHR ''+'') core = []"
    using assms(2) by (induction core) auto
  show ?thesis
    unfolding match_FULL_def Let_def strip tw dw using assms(1) by simp
qed

lemma is_space_not_version_char:
  "is_space c \<Longrightarrow> \<not> letter_dash_number c \<and> c \<noteq> CHR ''.'' \<and> c \<noteq> CHR ''v''"
  by (auto simp: is_space_def letter_dash_number_def is_digit_def less_eq_char_def)

lemma is_digit_letter_dash_number: "is_digit c \<Longrightarrow> letter_dash_number c"
  by (simp add: letter_dash_number_def)

lemma prerelease_identifier_chars:
  assumes "prerelease_identifier s"
  shows "s \<noteq> [] \<and> list_all letter_dash_number s"
proof (cases "list_all is_digit s")
  case True
  with assms have "numeric_identifier s" by (simp add: prerelease_identifier_def)
  then show ?thesis
    using numeric_identifier_digits [of s] by (auto simp: list_all_iff is_digit_letter_dash_number)
next
  case False
  with assms have "list_all letter_dash_number s" by (simp add: prerelease_identifier_def)
  moreover have "s \<noteq> []" using False by auto
  ultimately show ?thesis by simp
qed

lemma identifier_to_string_to_identifier:
  "prerelease_identifier s \<Longrightarrow> identifier_to_string (to_identifier s) = s"
  by (auto simp: prerelease_identifier_def to_identifier_def number_to_string_numeric)

lemma trim_no_space: "\<forall>c \<in> set w. \<not> is_space c \<Longrightarrow> trim w = w"
proof -
  assume a: "\<forall>c \<in> set w. \<not> is_space c"
  have d: "\<And>xs. \<forall>c \<in> set xs. \<not> is_space c \<Longrightarrow> dropWhile is_space xs = xs"
    by (case_tac xs) auto
  show ?thesis unfolding trim_def using a by (simp add: d)
qed

lemma length_trim: "length (trim s) \<le> length s"
proof -
  have "length (dropWhile is_space (rev (dropWhile is_space s))) \<le> length (rev (dropWhile is_space s))"
    by (rule length_dropWhile_le)
  also have "\<dots> \<le> length s" by (simp add: length_dropWhile_le)
  finally show ?thesis by (simp add: trim_def)
qed

lemma version_chars:
  assumes "match_MAIN_PRERELEASE core = Some (a, b, c, m4)" and "ch \<in> set core"
  shows "letter_dash_number ch \<or> ch = CHR ''.''"
proof -
  have parts: "core = a @ ''.'' @ b @ ''.'' @ c @ (case m4 of None \<Rightarrow> [] | Some p \<Rightarrow> CHR ''-'' # p)"
    and num: "numeric_identifier a" "numeric_identifier b" "numeric_identifier c"
    and pre: "case m4 of None \<Rightarrow> True | Some p \<Rightarrow> list_all prerelease_identifier (split_on CHR ''.'' p)"
    using match_MAIN_PRERELEASE_parts [OF assms(1)] by simp_all
  have n: "\<And>x d. numeric_identifier x \<Longrightarrow> d \<in> set x \<Longrightarrow> letter_dash_number d"
    using numeric_identifier_digits by (auto simp: list_all_iff is_digit_letter_dash_number)
  have p: "\<And>q d. m4 = Some q \<Longrightarrow> d \<in> set q \<Longrightarrow> letter_dash_number d \<or> d = CHR ''.''"
  proof -
    fix q d assume q: "m4 = Some q" and d: "d \<in> set q"
    from chars_of_split_on [OF d, of "CHR ''.''"] show "letter_dash_number d \<or> d = CHR ''.''"
    proof
      assume "d = CHR ''.''" then show ?thesis by simp
    next
      assume "\<exists>p\<in>set (split_on CHR ''.'' q). d \<in> set p"
      then obtain i where "i \<in> set (split_on CHR ''.'' q)" "d \<in> set i" by auto
      moreover have "prerelease_identifier i" using pre q calculation by (simp add: list_all_iff)
      ultimately show ?thesis using prerelease_identifier_chars [of i] by (auto simp: list_all_iff)
    qed
  qed
  have dash: "letter_dash_number CHR ''-''" by (simp add: letter_dash_number_def)
  from assms(2) parts have
    "ch \<in> set a \<or> ch = CHR ''.'' \<or> ch \<in> set b \<or> ch \<in> set c
      \<or> (\<exists>q. m4 = Some q \<and> (ch = CHR ''-'' \<or> ch \<in> set q))"
    by (cases m4) auto
  then show ?thesis using n [OF num(1)] n [OF num(2)] n [OF num(3)] p dash by blast
qed

lemma new_SemVer_format:
  assumes "new_SemVer version = Some sv"
  shows "new_SemVer (format sv) = Some sv
    \<and> format sv \<noteq> [] \<and> is_digit (hd (format sv)) \<and> (\<forall>c \<in> set (format sv). \<not> is_space c)
    \<and> length (format sv) \<le> MAX_LENGTH"
proof -
  define s where "s = trim version"
  define core where "core = takeWhile (\<lambda>c. c \<noteq> CHR ''+'')
           (case s of [] \<Rightarrow> [] | c # cs \<Rightarrow> if c = CHR ''v'' then cs else s)"
  from assms have len: "length version \<le> MAX_LENGTH"
    by (simp add: new_SemVer_def split: if_splits)
  from assms obtain a b c m4 where m: "match_FULL s = Some (a, b, c, m4)"
    and bounds: "\<not> to_number a > MAX_SAFE_INTEGER" "\<not> to_number b > MAX_SAFE_INTEGER"
       "\<not> to_number c > MAX_SAFE_INTEGER"
    and sv: "sv = \<lparr>major = to_number a, minor = to_number b, patch = to_number c,
                   prerelease = (case m4 of None \<Rightarrow> []
                                 | Some p \<Rightarrow> map to_identifier (split_on CHR ''.'' p))\<rparr>"
    unfolding new_SemVer_def s_def by (auto split: if_splits option.splits)
  have mc: "match_MAIN_PRERELEASE core = Some (a, b, c, m4)"
    unfolding core_def by (rule match_FULL_core [OF m])
  have parts: "core = a @ ''.'' @ b @ ''.'' @ c @ (case m4 of None \<Rightarrow> [] | Some p \<Rightarrow> CHR ''-'' # p)"
    and num: "numeric_identifier a" "numeric_identifier b" "numeric_identifier c"
    and pre: "case m4 of None \<Rightarrow> True | Some p \<Rightarrow> list_all prerelease_identifier (split_on CHR ''.'' p)"
    using match_MAIN_PRERELEASE_parts [OF mc] by simp_all
  have fmt: "format sv = core"
  proof (cases m4)
    case None
    then show ?thesis
      using parts num sv by (simp add: format_def number_to_string_numeric)
  next
    case (Some p)
    with pre have ids: "list_all prerelease_identifier (split_on CHR ''.'' p)" by simp
    then have "map identifier_to_string (map to_identifier (split_on CHR ''.'' p)) = split_on CHR ''.'' p"
      by (simp add: list_all_iff map_idI identifier_to_string_to_identifier)
    then have "join ''.'' (map identifier_to_string (map to_identifier (split_on CHR ''.'' p))) = p"
      by (simp only: join_split_on)
    then show ?thesis
      using parts num sv Some split_on_not_Nil [of "CHR ''.''" p]
      by (simp add: format_def number_to_string_numeric)
  qed
  have nosp: "\<forall>ch \<in> set core. \<not> is_space ch"
    using version_chars [OF mc] is_space_not_version_char by blast
  have noplus: "CHR ''+'' \<notin> set core"
    unfolding core_def by (auto dest: set_takeWhileD)
  have "length core \<le> length s"
    unfolding core_def
    by (cases s) (auto intro: order_trans [OF length_takeWhile_le])
  then have len_core: "length core \<le> MAX_LENGTH"
    using len length_trim [of version] by (simp add: s_def)
  have a: "a \<noteq> []" "is_digit (hd a)"
    using numeric_identifier_digits [OF num(1)] by (cases a; simp)+
  then have hd: "core \<noteq> []" "is_digit (hd core)" using parts by auto
  have "new_SemVer core = Some sv"
    unfolding new_SemVer_def
    using len_core trim_no_space [OF nosp] match_FULL_of_core [OF mc noplus] bounds sv
    by simp
  then show ?thesis using fmt hd nosp len_core by simp
qed

lemma semver_clean_valid:
  assumes "semver_clean s = Some v"
  shows "\<exists>sv. new_SemVer v = Some sv \<and> format sv = v"
  using assms new_SemVer_format unfolding semver_clean_def by auto

lemma semver_clean_nonempty: "semver_clean s = Some v \<Longrightarrow> v \<noteq> []"
  using new_SemVer_format unfolding semver_clean_def by auto

lemma semver_clean_of_valid:
  assumes "new_SemVer v = Some sv" and "format sv = v"
  shows "semver_clean (''v'' @ v) = Some v"
proof -
  have f: "new_SemVer (format sv) = Some sv" "format sv \<noteq> []" "is_digit (hd (format sv))"
    "\<forall>c \<in> set (format sv). \<not> is_space c"
    using new_SemVer_format [OF assms(1)] by simp_all
  have "\<forall>c \<in> set (''v'' @ v). \<not> is_space c"
    using f(4) assms(2) is_space_not_version_char by auto
  then have t: "trim (''v'' @ v) = ''v'' @ v" by (rule trim_no_space)
  have "dropWhile (\<lambda>c. c = CHR ''='' \<or> c = CHR ''v'') v = v"
    using f(2,3) assms(2) is_digit_not_special by (cases v) auto
  then have "dropWhile (\<lambda>c. c = CHR ''='' \<or> c = CHR ''v'') (''v'' @ v) = v" by simp
  then show ?thesis
    unfolding semver_clean_def t using assms by simp
qed

lemma semver_clean_idempotent:
  "semver_clean s = Some v \<Longrightarrow> semver_clean (''v'' @ v) = Some v"
  using semver_clean_valid semver_clean_of_valid by blast

subsection \<open>Precedence is a total preorder on parsed versions\<close>

lemma compareIdentifiers_cases:
  "compareIdentifiers a b = - 1 \<or> compareIdentifiers a b = 0 \<or> compareIdentifiers a b = 1"
  by (cases a; cases b) (auto simp: compareIdentifiers_def)

lemma compareIdentifiers_eq_0: "compareIdentifiers a b = 0 \<longleftrightarrow> a = b"
  by (cases a; cases b) (auto simp: compareIdentifiers_def)

lemma compareIdentifiers_sym: "compareIdentifiers b a = - compareIdentifiers a b"
  by (cases a; cases b) (auto simp: compareIdentifiers_def)

lemma compareIdentifiers_trans:
  "compareIdentifiers a b = - 1 \<Longrightarrow> compareIdentifiers b c = - 1 \<Longrightarrow> compareIdentifiers a c = - 1"
  by (cases a; cases b; cases c) (auto simp: compareIdentifiers_def split: if_splits)

lemma comparePre_loop_cases:
  "comparePre_loop xs ys = - 1 \<or> comparePre_loop xs ys = 0 \<or> comparePre_loop xs ys = 1"
  by (induction xs ys rule: comparePre_loop.induct) (auto simp: compareIdentifiers_cases)

lemma comparePre_loop_eq_0: "comparePre_loop xs ys = 0 \<longleftrightarrow> xs = ys"
  by (induction xs ys rule: comparePre_loop.induct) (auto simp: compareIdentifiers_eq_0)

lemma comparePre_loop_sym: "comparePre_loop ys xs = - comparePre_loop xs ys"
proof (induction xs ys rule: comparePre_loop.induct)
  case (4 a as b bs)
  then show ?case using compareIdentifiers_sym [of a b] by auto
qed simp_all

lemma comparePre_loop_trans:
  "comparePre_loop xs ys = - 1 \<Longrightarrow> comparePre_loop ys zs = - 1 \<Longrightarrow> comparePre_loop xs zs = - 1"
proof (induction xs ys arbitrary: zs rule: comparePre_loop.induct)
  case 1
  then show ?case by simp
next
  case (2 a as)
  then show ?case by simp
next
  case (3 b bs)
  then show ?case by (cases zs) auto
next
  case (4 a as b bs)
  then obtain c cs where zs: "zs = c # cs" by (cases zs) auto
  show ?case
  proof (cases "a = b")
    case True
    note ab = this
    show ?thesis
    proof (cases "b = c")
      case True
      with ab 4 zs show ?thesis by simp
    next
      case False
      with ab 4 zs show ?thesis by simp
    qed
  next
    case False
    note ab = this
    show ?thesis
    proof (cases "b = c")
      case True
      with ab 4 zs show ?thesis by simp
    next
      case False
      with ab 4 zs have "compareIdentifiers a b = - 1" "compareIdentifiers b c = - 1" by simp_all
      then have ac: "compareIdentifiers a c = - 1" by (rule compareIdentifiers_trans)
      then have "a \<noteq> c" using compareIdentifiers_eq_0 [of a c] by auto
      then show ?thesis using ac zs by simp
    qed
  qed
qed

lemma comparePre_cases: "comparePre x y = - 1 \<or> comparePre x y = 0 \<or> comparePre x y = 1"
  using comparePre_loop_cases [of "prerelease x" "prerelease y"] by (auto simp: comparePre_def)

lemma comparePre_eq_0: "comparePre x y = 0 \<longleftrightarrow> prerelease x = prerelease y"
  using comparePre_loop_eq_0 [of "prerelease x" "prerelease y"] by (auto simp: comparePre_def)

lemma comparePre_sym: "comparePre y x = - comparePre x y"
  using comparePre_loop_sym [of "prerelease x" "prerelease y"] by (auto simp: comparePre_def)

lemma comparePre_trans:
  "comparePre x y = - 1 \<Longrightarrow> comparePre y z = - 1 \<Longrightarrow> comparePre x z = - 1"
  using comparePre_loop_trans [of "prerelease x" "prerelease y" "prerelease z"]
  by (auto simp: comparePre_def split: if_splits)

lemma compareMain_eq:
  "compareMain x y =
     (if major x < major y \<or> (major x = major y \<and> (minor x < minor y
           \<or> (minor x = minor y \<and> patch x < patch y))) then - 1
      else if major x = major y \<and> minor x = minor y \<and> patch x = patch y then 0
      else 1)"
  by (auto simp: compareMain_def compareIdentifiers_def)

lemma precedence_cases:
  "(if compareMain x y \<noteq> 0 then compareMain x y else comparePre x y) \<in> {- 1, 0, 1}"
  using comparePre_cases [of x y] by (auto simp: compareMain_eq)

lemma precedence_eq_0:
  "(if compareMain x y \<noteq> 0 then compareMain x y else comparePre x y) = 0 \<longleftrightarrow> (x :: SemVer) = y"
  by (auto simp: compareMain_eq comparePre_eq_0 split: if_splits)

lemma precedence_sym:
  "(if compareMain y x \<noteq> 0 then compareMain y x else comparePre y x)
     = - (if compareMain x y \<noteq> 0 then compareMain x y else comparePre x y)"
  using comparePre_sym [of x y] by (auto simp: compareMain_eq)

lemma precedence_trans:
  assumes "(if compareMain x y \<noteq> 0 then compareMain x y else comparePre x y) = - 1"
    and "(if compareMain y z \<noteq> 0 then compareMain y z else comparePre y z) = - 1"
  shows "(if compareMain x z \<noteq> 0 then compareMain x z else comparePre x z) = - 1"
  using assms comparePre_trans [of x y z]
  by (auto simp: compareMain_eq split: if_splits)

lemma new_SemVer_valid: "new_SemVer a = Some x \<Longrightarrow> new_SemVer (format x) = Some x"
  using new_SemVer_format by blast

lemma SemVer_compare_precedence:
  assumes "new_SemVer a = Some x" and "new_SemVer b = Some y"
  shows "SemVer_compare x y = (if compareMain x y \<noteq> 0 then compareMain x y else comparePre x y)"
proof (cases "format y = format x")
  case True
  then have "x = y"
    using new_SemVer_valid [OF assms(1)] new_SemVer_valid [OF assms(2)] by simp
  then show ?thesis
    using precedence_eq_0 [of x y] by (simp add: SemVer_compare_def)
next
  case False
  then show ?thesis by (simp add: SemVer_compare_def)
qed

lemma semver_compare_Some:
  "new_SemVer a = Some x \<Longrightarrow> new_SemVer b = Some y \<Longrightarrow>
   semver_compare a b = Some (if compareMain x y \<noteq> 0 then compareMain x y else comparePre x y)"
  using SemVer_compare_precedence [of a x b y] by (simp add: semver_compare_def)

lemma semver_compare_sym:
  assumes "new_SemVer a \<noteq> None" and "new_SemVer b \<noteq> None"
  shows "\<exists>k. semver_compare a b = Some k \<and> semver_compare b a = Some (- k)"
proof -
  from assms obtain x y where xy: "new_SemVer a = Some x" "new_SemVer b = Some y" by auto
  show ?thesis
    using semver_compare_Some [OF xy] semver_compare_Some [OF xy(2) xy(1)] precedence_sym [of x y]
    by simp
qed

lemma semver_compare_trans:
  assumes "new_SemVer a \<noteq> None" and "new_SemVer b \<noteq> None" and "new_SemVer c \<noteq> None"
    and "semver_compare a b = Some k1" and "k1 \<le> 0"
    and "semver_compare b c = Some k2" and "k2 \<le> 0"
  shows "\<exists>k3. semver_compare a c = Some k3 \<and> k3 \<le> 0"
proof -
  from assms obtain x y z where xyz: "new_SemVer a = Some x" "new_SemVer b = Some y"
    "new_SemVer c = Some z" by auto
  define p where "p = (\<lambda>u v :: SemVer. if compareMain u v \<noteq> 0 then compareMain u v else comparePre u v)"
  have ab: "p x y \<le> 0" using semver_compare_Some [OF xyz(1,2)] assms(4,5) by (simp add: p_def)
  have bc: "p y z \<le> 0" using semver_compare_Some [OF xyz(2,3)] assms(6,7) by (simp add: p_def)
  have c1: "p x y = - 1 \<or> x = y"
    using ab precedence_cases [of x y] precedence_eq_0 [of x y] unfolding p_def by auto
  have c2: "p y z = - 1 \<or> y = z"
    using bc precedence_cases [of y z] precedence_eq_0 [of y z] unfolding p_def by auto
  have "p x z \<le> 0"
  proof (cases "x = y")
    case True then show ?thesis using bc by simp
  next
    case False
    note xy = this
    show ?thesis
    proof (cases "y = z")
      case True then show ?thesis using ab by simp
    next
      case False
      with xy c1 c2 have "p x y = - 1" "p y z = - 1" by auto
      then have "p x z = - 1" unfolding p_def by (rule precedence_trans)
      then show ?thesis by simp
    qed
  qed
  then show ?thesis using semver_compare_Some [OF xyz(1,3)] by (simp add: p_def)
qed

lemma insert_sorted_set:
  "\<forall>b \<in> set ys. comparefn x b \<noteq> None \<Longrightarrow>
   \<exists>zs. insert_sorted comparefn x ys = Some zs \<and> set zs = insert x (set ys)"
proof (induction ys)
  case Nil
  then show ?case by simp
next
  case (Cons y ys)
  then obtain c where c: "comparefn x y = Some c" by auto
  from Cons obtain zs where zs: "insert_sorted comparefn x ys = Some zs" "set zs = insert x (set ys)"
    by auto
  show ?case using c zs by auto
qed

lemma Array_sort_set:
  "\<forall>a \<in> set xs. \<forall>b \<in> set xs. comparefn a b \<noteq> None \<Longrightarrow>
   \<exists>ys. Array_sort comparefn xs = Some ys \<and> set ys = set xs"
proof (induction xs)
  case Nil
  then show ?case by simp
next
  case (Cons x xs)
  then obtain ys where ys: "Array_sort comparefn xs = Some ys" "set ys = set xs" by auto
  have "\<forall>b \<in> set ys. comparefn x b \<noteq> None" using Cons.prems ys by simp
  from insert_sorted_set [of ys comparefn x, OF this] show ?case using ys by auto
qed

lemma insert_sorted_first:
  assumes sym: "\<forall>a \<in> S. \<forall>b \<in> S. \<exists>k. comparefn a b = Some k \<and> comparefn b a = Some (- k)"
    and trans: "\<forall>a \<in> S. \<forall>b \<in> S. \<forall>c \<in> S. \<forall>k1 k2.
        comparefn a b = Some k1 \<and> k1 \<le> 0 \<and> comparefn b c = Some k2 \<and> k2 \<le> 0
        \<longrightarrow> (\<exists>k3. comparefn a c = Some k3 \<and> k3 \<le> 0)"
    and x: "x \<in> S" and ys: "set ys \<subseteq> S"
    and first: "\<forall>h t. ys = h # t \<longrightarrow> (\<forall>y \<in> set ys. \<exists>k. comparefn h y = Some k \<and> k \<le> 0)"
    and res: "insert_sorted comparefn x ys = Some zs"
  shows "\<exists>h t. zs = h # t \<and> (\<forall>z \<in> set zs. \<exists>k. comparefn h z = Some k \<and> k \<le> 0)"
proof -
  have refl: "\<And>a. a \<in> S \<Longrightarrow> comparefn a a = Some 0"
  proof -
    fix a assume "a \<in> S"
    then obtain k where "comparefn a a = Some k" "comparefn a a = Some (- k)" using sym by blast
    then show "comparefn a a = Some 0" by simp
  qed
  show ?thesis
  proof (cases ys)
    case Nil
    then show ?thesis using res refl [OF x] by auto
  next
    case (Cons y ys')
    then have y: "y \<in> S" using ys by simp
    obtain k where k: "comparefn x y = Some k" "comparefn y x = Some (- k)"
      using sym x y by blast
    have fy: "\<forall>z \<in> set ys. \<exists>k. comparefn y z = Some k \<and> k \<le> 0" using first Cons by simp
    show ?thesis
    proof (cases "k \<le> 0")
      case True
      then have zs: "zs = x # y # ys'" using res Cons k by simp
      have "\<forall>z \<in> set ys. \<exists>k. comparefn x z = Some k \<and> k \<le> 0"
      proof
        fix z assume z: "z \<in> set ys"
        then obtain k2 where "comparefn y z = Some k2" "k2 \<le> 0" using fy by blast
        moreover have "z \<in> S" using z ys by auto
        ultimately show "\<exists>k. comparefn x z = Some k \<and> k \<le> 0"
          using trans x y k(1) True by blast
      qed
      then show ?thesis using zs refl [OF x] Cons by auto
    next
      case False
      have "\<forall>b \<in> set ys'. comparefn x b \<noteq> None"
        using sym x ys Cons by (metis list.set_intros(2) option.distinct(1) subsetD)
      from insert_sorted_set [of ys' comparefn x, OF this] obtain ws where
        ws: "insert_sorted comparefn x ys' = Some ws" "set ws = insert x (set ys')" by blast
      then have zs: "zs = y # ws" using res Cons k False by simp
      have "\<forall>z \<in> set zs. \<exists>k. comparefn y z = Some k \<and> k \<le> 0"
      proof
        fix z assume "z \<in> set zs"
        then have "z = x \<or> z \<in> set ys" using zs ws Cons by auto
        then show "\<exists>k. comparefn y z = Some k \<and> k \<le> 0"
          using k(2) False fy by auto
      qed
      then show ?thesis using zs by simp
    qed
  qed
qed

lemma Array_sort_first:
  assumes sym: "\<forall>a \<in> S. \<forall>b \<in> S. \<exists>k. comparefn a b = Some k \<and> comparefn b a = Some (- k)"
    and trans: "\<forall>a \<in> S. \<forall>b \<in> S. \<forall>c \<in> S. \<forall>k1 k2.
        comparefn a b = Some k1 \<and> k1 \<le> 0 \<and> comparefn b c = Some k2 \<and> k2 \<le> 0
        \<longrightarrow> (\<exists>k3. comparefn a c = Some k3 \<and> k3 \<le> 0)"
    and xs: "set xs \<subseteq> S"
  shows "\<exists>ys. Array_sort comparefn xs = Some ys \<and> set ys = set xs
    \<and> (\<forall>h t. ys = h # t \<longrightarrow> (\<forall>y \<in> set ys. \<exists>k. comparefn h y = Some k \<and> k \<le> 0))"
  using xs
proof (induction xs)
  case Nil
  then show ?case by simp
next
  case (Cons x xs)
  then obtain ys where ys: "Array_sort comparefn xs = Some ys" "set ys = set xs"
    "\<forall>h t. ys = h # t \<longrightarrow> (\<forall>y \<in> set ys. \<exists>k. comparefn h y = Some k \<and> k \<le> 0)"
    by auto
  have x: "x \<in> S" and sub: "set ys \<subseteq> S" using Cons.prems ys(2) by auto
  have "\<forall>b \<in> set ys. comparefn x b \<noteq> None"
    using sym x sub by (metis option.distinct(1) subsetD)
  from insert_sorted_set [of ys comparefn x, OF this] obtain zs where
    zs: "insert_sorted comparefn x ys = Some zs" "set zs = insert x (set ys)" by blast
  from insert_sorted_first [OF sym trans x sub ys(3) zs(1)]
  have "\<exists>h t. zs = h # t \<and> (\<forall>z \<in> set zs. \<exists>k. comparefn h z = Some k \<and> k \<le> 0)" .
  then show ?case using ys zs by auto
qed

section \<open>Properties of runs\<close>

lemma seq_error:
  "fst (seq m f t) = Inl e \<Longrightarrow>
   fst (m t) = Inl e \<or> (\<exists>x t'. m t = (Inr x, t') \<and> fst (f x t') = Inl e)"
  by (auto simp: seq_def split: prod.splits sum.splits)

lemma raises_only_seq:
  "raises_only m E \<Longrightarrow> (\<And>x. raises_only (f x) E) \<Longrightarrow> raises_only (seq m f) E"
  unfolding raises_only_def by (metis seq_error)

lemma raises_only_seq_lift:
  "(\<And>e. r = Inl e \<Longrightarrow> E e) \<Longrightarrow> (\<And>x. r = Inr x \<Longrightarrow> raises_only (f x) E) \<Longrightarrow>
   raises_only (seq (lift r) f) E"
  unfolding raises_only_def by (cases r) (auto simp: seq_def lift_def)

lemma raises_only_call: "(\<And>msg. E (External msg)) \<Longrightarrow> raises_only (call ev answer) E"
  unfolding raises_only_def by (auto simp: call_def split: sum.splits)

lemma raises_only_effect: "raises_only (effect ev) E"
  unfolding raises_only_def by (simp add: effect_def)

lemma raises_only_return_run: "raises_only (return_run x) E"
  unfolding raises_only_def by (simp add: return_run_def)

lemma raises_only_throw: "E e \<Longrightarrow> raises_only (throw e) E"
  unfolding raises_only_def by (simp add: throw_def)

lemma raises_only_lift: "(\<And>e. r = Inl e \<Longrightarrow> E e) \<Longrightarrow> raises_only (lift r) E"
  unfolding raises_only_def by (simp add: lift_def)

lemma raises_only_group: "raises_only m E \<Longrightarrow> raises_only (group n m) E"
  unfolding raises_only_def by (auto simp: group_def split: prod.splits) (metis fst_conv)

lemma raises_only_if:
  "(b \<Longrightarrow> raises_only m E) \<Longrightarrow> (\<not> b \<Longrightarrow> raises_only m' E) \<Longrightarrow> raises_only (if b then m else m') E"
  by simp

lemma raises_only_D: "raises_only m E \<Longrightarrow> fst (m t) = Inl e \<Longrightarrow> E e"
  unfolding raises_only_def by blast

lemma raises_only_mono: "raises_only m E \<Longrightarrow> (\<And>e. E e \<Longrightarrow> E' e) \<Longrightarrow> raises_only m E'"
  unfolding raises_only_def by blast

lemma emits_only_seq:
  "emits_only m P \<Longrightarrow> (\<And>x. emits_only (f x) P) \<Longrightarrow> emits_only (seq m f) P"
proof -
  assume m: "emits_only m P" and f: "\<And>x. emits_only (f x) P"
  show ?thesis
    unfolding emits_only_def
  proof
    fix t
    obtain es where es: "snd (m t) = t @ es" "list_all P es" using m unfolding emits_only_def by blast
    show "\<exists>es. snd (seq m f t) = t @ es \<and> list_all P es"
    proof (cases "fst (m t)")
      case (Inl e)
      then have "seq m f t = (Inl e, t @ es)" using es(1) by (cases "m t") (simp add: seq_def)
      then show ?thesis using es(2) by auto
    next
      case (Inr x)
      then have s: "seq m f t = f x (t @ es)" using es(1) by (cases "m t") (simp add: seq_def)
      obtain fs where "snd (f x (t @ es)) = (t @ es) @ fs" "list_all P fs"
        using f [of x] unfolding emits_only_def by blast
      then show ?thesis using s es(2) by (intro exI [of _ "es @ fs"]) simp
    qed
  qed
qed

lemma emits_only_call: "P ev \<Longrightarrow> emits_only (call ev answer) P"
  unfolding emits_only_def by (auto simp: call_def split: sum.splits)

lemma emits_only_effect: "P ev \<Longrightarrow> emits_only (effect ev) P"
  unfolding emits_only_def by (simp add: effect_def)

lemma emits_only_return_run: "emits_only (return_run x) P"
  unfolding emits_only_def by (simp add: return_run_def)

lemma emits_only_throw: "emits_only (throw e) P"
  unfolding emits_only_def by (simp add: throw_def)

lemma emits_only_lift: "emits_only (lift r) P"
  unfolding emits_only_def by (simp add: lift_def)

lemma emits_only_group:
  "P (StartGroup n) \<Longrightarrow> P EndGroup \<Longrightarrow> emits_only m P \<Longrightarrow> emits_only (group n m) P"
proof -
  assume p: "P (StartGroup n)" "P EndGroup" and m: "emits_only m P"
  show ?thesis
    unfolding emits_only_def
  proof
    fix t
    obtain es where "snd (m (t @ [StartGroup n])) = (t @ [StartGroup n]) @ es" "list_all P es"
      using m unfolding emits_only_def by blast
    then show "\<exists>es. snd (group n m t) = t @ es \<and> list_all P es"
      using p by (intro exI [of _ "StartGroup n # es @ [EndGroup]"])
                 (auto simp: group_def split: prod.splits)
  qed
qed

lemma emits_only_mono: "emits_only m P \<Longrightarrow> (\<And>e. P e \<Longrightarrow> Q e) \<Longrightarrow> emits_only m Q"
  unfolding emits_only_def by (metis (mono_tags, lifting) list_all_iff)

lemma emits_only_D: "emits_only m P \<Longrightarrow> \<exists>es. snd (m t) = t @ es \<and> list_all P es"
  unfolding emits_only_def by blast

lemma group_eq: "m (t @ [StartGroup n]) = (r, t') \<Longrightarrow> group n m t = (r, t' @ [EndGroup])"
  by (simp add: group_def)

lemma seq_Inl: "m t = (Inl e, t') \<Longrightarrow> seq m f t = (Inl e, t')"
  by (simp add: seq_def)

lemma seq_Inr: "m t = (Inr x, t') \<Longrightarrow> seq m f t = f x t'"
  by (simp add: seq_def)

section \<open>The claims\<close>

subsection \<open>Version specifier\<close>

lemma cleanedVersion_eq:
  "cleanedVersion s = (case semver_clean s of None \<Rightarrow> Inl (InvalidVersion s)
                       | Some v \<Rightarrow> Inr \<lparr>versionString = v\<rparr>)"
  using semver_clean_nonempty [of s] by (auto simp: cleanedVersion_def split: option.splits)

lemma cleanedVersion_prev_eq:
  "cleanedVersion_prev s = (case semver_clean s of None \<Rightarrow> Inl (InvalidVersion s) | Some v \<Rightarrow> Inr v)"
  using semver_clean_nonempty [of s] by (auto simp: cleanedVersion_prev_def split: option.splits)

text \<open>
  C4. Constructing a version specifier from a string \<open>s\<close> classifies it into exactly one
  mode: the literal \<open>stable\<close> gives Stable and the literal \<open>latest\<close> gives Latest, both
  without a semantic version; any other string goes through semantic-version
  normalization, and the construction fails with \<open>InvalidVersion\<close> when that fails and
  otherwise gives Exact mode holding the cleaned version.
\<close>

theorem C4_classification:
  "new_RequestedVersion s =
     (if s = ''stable'' then Inr \<lparr>inputVersion = s, semverVersion = None\<rparr>
      else if s = ''latest'' then Inr \<lparr>inputVersion = s, semverVersion = None\<rparr>
      else (case semver_clean s of
              None \<Rightarrow> Inl (InvalidVersion s)
            | Some v \<Rightarrow> Inr \<lparr>inputVersion = s, semverVersion = Some \<lparr>versionString = v\<rparr>\<rparr>))
   \<and> (case new_RequestedVersion s of
         Inl e \<Rightarrow> e = InvalidVersion s \<and> s \<noteq> ''stable'' \<and> s \<noteq> ''latest'' \<and> semver_clean s = None
       | Inr r \<Rightarrow>
           inputVersion r = s \<and> (isStable r \<longleftrightarrow> s = ''stable'') \<and> (isLatest r \<longleftrightarrow> s = ''latest'')
           \<and> \<not> (isStable r \<and> isLatest r)
           \<and> (if isStable r \<or> isLatest r then semverVersion r = None
               else \<exists>v. semver_clean s = Some v \<and> semverVersion r = Some \<lparr>versionString = v\<rparr>))"
  by (auto simp: new_RequestedVersion_def isStable_static_def isLatest_static_def
        isStable_def isLatest_def cleanedVersion_eq split: option.splits)

theorem C4_classification_witness:
  "new_RequestedVersion ''stable'' = Inr \<lparr>inputVersion = ''stable'', semverVersion = None\<rparr>
   \<and> new_RequestedVersion ''latest'' = Inr \<lparr>inputVersion = ''latest'', semverVersion = None\<rparr>
   \<and> new_RequestedVersion ''v2.40.0'' =
        Inr \<lparr>inputVersion = ''v2.40.0'', semverVersion = Some \<lparr>versionString = ''2.40.0''\<rparr>\<rparr>
   \<and> new_RequestedVersion ''newest'' = Inl (InvalidVersion ''newest'')"
proof -
  have a: "semver_clean ''v2.40.0'' = Some ''2.40.0''" by code_simp
  have b: "semver_clean ''newest'' = None" by code_simp
  show ?thesis
    using C4_classification [of "''stable''"] C4_classification [of "''latest''"]
      C4_classification [of "''v2.40.0''"] C4_classification [of "''newest''"] a b
    by simp
qed

text \<open>
  C6. For a specifier in Exact mode, \<open>tagName\<close> is the string \<open>v\<close> followed by the cleaned
  version string (version 1.2.3 gives \<open>v1.2.3\<close>); \<open>cleanedVersion\<close> and \<open>tagName\<close> both
  fail with \<open>NotAnExactVersion\<close> whenever the mode is Stable or Latest.
\<close>

theorem C6_tagName:
  "(isStable r \<or> isLatest r \<longrightarrow>
      get_cleanedVersion r = Inl (NotAnExactVersion (inputVersion r))
      \<and> tagName r = Inl (NotAnExactVersion (inputVersion r)))
   \<and> (\<not> isStable r \<and> \<not> isLatest r \<and> semverVersion r = Some v \<longrightarrow>
      get_cleanedVersion r = Inr v \<and> tagName r = Inr (''v'' @ versionString v))
   \<and> (new_RequestedVersion s = Inr r \<and> s \<noteq> ''stable'' \<and> s \<noteq> ''latest'' \<longrightarrow>
      (\<exists>c. semver_clean s = Some c \<and> get_cleanedVersion r = Inr \<lparr>versionString = c\<rparr>
           \<and> tagName r = Inr (''v'' @ c)))"
  by (auto simp: get_cleanedVersion_def tagName_def new_RequestedVersion_def
        isStable_static_def isLatest_static_def isStable_def isLatest_def cleanedVersion_eq
        split: option.splits)

theorem C6_tagName_witness:
  "tagName \<lparr>inputVersion = ''1.2.3'', semverVersion = Some \<lparr>versionString = ''1.2.3''\<rparr>\<rparr>
     = Inr ''v1.2.3''
   \<and> new_RequestedVersion ''1.2.3''
     = Inr \<lparr>inputVersion = ''1.2.3'', semverVersion = Some \<lparr>versionString = ''1.2.3''\<rparr>\<rparr>
   \<and> tagName \<lparr>inputVersion = ''stable'', semverVersion = None\<rparr>
     = Inl (NotAnExactVersion ''stable'')
   \<and> get_cleanedVersion \<lparr>inputVersion = ''latest'', semverVersion = None\<rparr>
     = Inl (NotAnExactVersion ''latest'')"
proof -
  have a: "new_RequestedVersion ''1.2.3''
     = Inr \<lparr>inputVersion = ''1.2.3'', semverVersion = Some \<lparr>versionString = ''1.2.3''\<rparr>\<rparr>"
    by code_simp
  show ?thesis
    using C6_tagName [of "\<lparr>inputVersion = ''1.2.3'', semverVersion = Some \<lparr>versionString = ''1.2.3''\<rparr>\<rparr>"
        "\<lparr>versionString = ''1.2.3''\<rparr>" "''1.2.3''"]
      C6_tagName [of "\<lparr>inputVersion = ''stable'', semverVersion = None\<rparr>"]
      C6_tagName [of "\<lparr>inputVersion = ''latest'', semverVersion = None\<rparr>"] a
    by (simp add: isStable_def isLatest_def isStable_static_def isLatest_static_def)
qed

subsection \<open>Archive format\<close>

lemma new_SemVer_nonneg:
  assumes "new_SemVer a = Some sv"
  shows "0 \<le> major sv \<and> 0 \<le> minor sv \<and> 0 \<le> patch sv"
proof -
  from assms obtain m1 m2 m3 m4 where m: "match_FULL (trim a) = Some (m1, m2, m3, m4)"
    and sv: "major sv = to_number m1" "minor sv = to_number m2" "patch sv = to_number m3"
    unfolding new_SemVer_def by (auto split: if_splits option.splits)
  have "numeric_identifier m1 \<and> numeric_identifier m2 \<and> numeric_identifier m3"
    using match_MAIN_PRERELEASE_parts [OF match_FULL_core [OF m]] by simp
  then show ?thesis
    using sv numeric_identifier_digits to_number_nonneg by simp
qed

lemma new_SemVer_2_28_0:
  "new_SemVer ''2.28.0'' = Some \<lparr>major = 2, minor = 28, patch = 0, prerelease = []\<rparr>"
  by code_simp

lemma assetExtension_MacOS:
  assumes "new_SemVer (versionString v) = Some sv"
  shows "assetExtension MacOS v =
     Inr (if major sv < 2 \<or> (major sv = 2 \<and> minor sv < 28)
             \<or> (major sv = 2 \<and> minor sv = 28 \<and> patch sv = 0 \<and> prerelease sv \<noteq> [])
          then ''tar.gz'' else ''zip'')"
proof -
  define c where "c = \<lparr>major = 2, minor = 28, patch = 0, prerelease = []\<rparr>"
  have cmp: "semver_compare (versionString v) ''2.28.0'' =
      Some (if compareMain sv c \<noteq> 0 then compareMain sv c else comparePre sv c)"
    using semver_compare_Some [OF assms new_SemVer_2_28_0] by (simp add: c_def)
  have nn: "0 \<le> patch sv" using new_SemVer_nonneg [OF assms] by simp
  have "(if compareMain sv c \<noteq> 0 then compareMain sv c else comparePre sv c) = - 1
      \<longleftrightarrow> major sv < 2 \<or> (major sv = 2 \<and> minor sv < 28)
             \<or> (major sv = 2 \<and> minor sv = 28 \<and> patch sv = 0 \<and> prerelease sv \<noteq> [])"
    using nn by (auto simp: compareMain_eq comparePre_def c_def)
  then show ?thesis
    unfolding assetExtension_def using cmp by simp
qed

lemma assetExtension_range:
  "assetExtension plat v = Inl TypeError \<or> assetExtension plat v = Inr ''zip''
   \<or> assetExtension plat v = Inr ''tar.gz''"
  by (auto simp: assetExtension_def split: option.splits)

lemma extract_archive_raises:
  "extension = ''zip'' \<or> extension = ''tar.gz'' \<Longrightarrow>
   raises_only (extract_archive env extension p) (\<lambda>e. \<exists>msg. e = External msg)"
  unfolding extract_archive_def by (auto intro!: raises_only_call)

lemma resolve_directory_raises:
  "raises_only (resolve_directory env asset extension root)
     (\<lambda>e. e = NoExecutableFound \<or> (\<exists>msg. e = External msg))"
  unfolding raises_only_def resolve_directory_def Let_def
  by (auto simp: seq_def call_def effect_def throw_def return_run_def
        split: prod.splits sum.splits if_splits)

lemma install_raises:
  "raises_only (install env plat asset v)
     (\<lambda>e. e = TypeError \<or> e = NoExecutableFound \<or> (\<exists>msg. e = External msg))"
  unfolding install_def
  apply (rule raises_only_seq)
   apply (rule raises_only_call)
   apply blast
  apply (rule raises_only_seq_lift)
   apply (use assetExtension_range [of plat v] in auto)[1]
  apply (rule raises_only_seq)
   apply (rule raises_only_mono [OF extract_archive_raises])
    apply (use assetExtension_range [of plat v] in auto)[1]
   apply blast
  apply (rule raises_only_seq)
   apply (rule raises_only_mono [OF resolve_directory_raises])
   apply blast
  apply (rule raises_only_seq)
   apply (rule raises_only_call)
   apply blast
  apply (rule raises_only_return_run)
  done

text \<open>
  C2. \<open>assetExtension\<close> gives \<open>zip\<close> on windows and \<open>tar.gz\<close> on linux for any version;
  on macOS, for a cleaned version, it gives \<open>tar.gz\<close> when the version precedes 2.28.0
  (a smaller major, minor or patch part, or 2.28.0 with a pre-release part) and \<open>zip\<close>
  otherwise: 2.27.9 gives \<open>tar.gz\<close>, 2.28.0 and 2.30.0 give \<open>zip\<close>.
\<close>

theorem C2_assetExtension:
  "assetExtension Windows v = Inr ''zip''
   \<and> assetExtension Linux v = Inr ''tar.gz''
   \<and> (semver_clean s = Some (versionString v) \<longrightarrow>
        (\<exists>sv. new_SemVer (versionString v) = Some sv \<and>
           assetExtension MacOS v =
             Inr (if major sv < 2 \<or> (major sv = 2 \<and> minor sv < 28)
                     \<or> (major sv = 2 \<and> minor sv = 28 \<and> patch sv = 0 \<and> prerelease sv \<noteq> [])
                  then ''tar.gz'' else ''zip'')))
   \<and> assetExtension MacOS \<lparr>versionString = ''2.27.9''\<rparr> = Inr ''tar.gz''
   \<and> assetExtension MacOS \<lparr>versionString = ''2.28.0''\<rparr> = Inr ''zip''
   \<and> assetExtension MacOS \<lparr>versionString = ''2.30.0''\<rparr> = Inr ''zip''"
proof -
  have 1: "assetExtension Windows v = Inr ''zip''" by (simp add: assetExtension_def)
  have 2: "assetExtension Linux v = Inr ''tar.gz''" by (simp add: assetExtension_def)
  have 3: "semver_clean s = Some (versionString v) \<longrightarrow>
        (\<exists>sv. new_SemVer (versionString v) = Some sv \<and>
           assetExtension MacOS v =
             Inr (if major sv < 2 \<or> (major sv = 2 \<and> minor sv < 28)
                     \<or> (major sv = 2 \<and> minor sv = 28 \<and> patch sv = 0 \<and> prerelease sv \<noteq> [])
                  then ''tar.gz'' else ''zip''))"
    using semver_clean_valid [of s "versionString v"] assetExtension_MacOS [of v] by blast
  have 4: "assetExtension MacOS \<lparr>versionString = ''2.27.9''\<rparr> = Inr ''tar.gz''" by code_simp
  have 5: "assetExtension MacOS \<lparr>versionString = ''2.28.0''\<rparr> = Inr ''zip''" by code_simp
  have 6: "assetExtension MacOS \<lparr>versionString = ''2.30.0''\<rparr> = Inr ''zip''" by code_simp
  show ?thesis using 1 2 3 4 5 6 by blast
qed

theorem C2_assetExtension_witness:
  "semver_clean ''v2.28.0-rc1'' = Some ''2.28.0-rc1''
   \<and> assetExtension MacOS \<lparr>versionString = ''2.28.0-rc1''\<rparr> = Inr ''tar.gz''
   \<and> assetExtension Windows \<lparr>versionString = ''2.28.0-rc1''\<rparr> = Inr ''zip''
   \<and> assetExtension Linux \<lparr>versionString = ''2.28.0-rc1''\<rparr> = Inr ''tar.gz''"
proof -
  have a: "semver_clean ''v2.28.0-rc1'' = Some ''2.28.0-rc1''" by code_simp
  have b: "new_SemVer ''2.28.0-rc1'' =
    Some \<lparr>major = 2, minor = 28, patch = 0, prerelease = [Alphanumeric ''rc1'']\<rparr>" by code_simp
  show ?thesis
    using C2_assetExtension [of "\<lparr>versionString = ''2.28.0-rc1''\<rparr>" "''v2.28.0-rc1''"] a b
    by auto
qed



subsection \<open>Asset name\<close>

lemma assetExtension_cleaned:
  assumes "semver_clean s = Some (versionString v)"
  shows "assetExtension plat v = Inr ''zip'' \<or> assetExtension plat v = Inr ''tar.gz''"
proof -
  obtain sv where "new_SemVer (versionString v) = Some sv"
    using assms semver_clean_valid by blast
  then have "semver_compare (versionString v) ''2.28.0'' \<noteq> None"
    using semver_compare_Some [of "versionString v" sv "''2.28.0''"] new_SemVer_2_28_0 by simp
  then show ?thesis by (auto simp: assetExtension_def)
qed

lemma find_None: "find P xs = None \<longleftrightarrow> (\<forall>x \<in> set xs. \<not> P x)"
  by (induction xs) auto

text \<open>
  The latest revision builds the expected asset name as the string \<open>gh_\<close>, the version,
  \<open>_\<close>, the OS family, \<open>_\<close>, the architecture, a dot and the extension that
  \<open>assetExtension\<close> gives for the resolved version; it fails with \<open>AssetNotFound\<close> if and
  only if no asset of the release has exactly this name, and otherwise installs the first
  asset with this name.
\<close>

lemma installing_release_asset_name:
  "assetName env plat v ext =
     ''gh_'' @ versionString v @ ''_'' @ os_family_string plat @ ''_'' @ osArch (os_arch env)
       @ ''.'' @ ext
   \<and> (semver_clean s = Some (versionString (release_version release)) \<longrightarrow>
       (\<exists>extension. assetExtension plat (release_version release) = Inr extension
          \<and> ((\<exists>n. fst (installing_release env plat release t) = Inl (AssetNotFound n))
               \<longleftrightarrow> (\<forall>a \<in> set (assets release).
                      name a \<noteq> assetName env plat (release_version release) extension))
          \<and> (\<forall>n. fst (installing_release env plat release t) = Inl (AssetNotFound n) \<longrightarrow>
                 n = assetName env plat (release_version release) extension
                 \<and> snd (installing_release env plat release t) = t)
          \<and> (\<forall>a. find (\<lambda>a. name a = assetName env plat (release_version release) extension)
                     (assets release) = Some a \<longrightarrow>
                 installing_release env plat release t
                   = install env plat a (release_version release) t)))"
proof -
  have 1: "assetName env plat v ext =
     ''gh_'' @ versionString v @ ''_'' @ os_family_string plat @ ''_'' @ osArch (os_arch env)
       @ ''.'' @ ext"
    by (simp add: assetName_def)
  have 2: "semver_clean s = Some (versionString (release_version release)) \<longrightarrow>
       (\<exists>extension. assetExtension plat (release_version release) = Inr extension
          \<and> ((\<exists>n. fst (installing_release env plat release t) = Inl (AssetNotFound n))
               \<longleftrightarrow> (\<forall>a \<in> set (assets release).
                      name a \<noteq> assetName env plat (release_version release) extension))
          \<and> (\<forall>n. fst (installing_release env plat release t) = Inl (AssetNotFound n) \<longrightarrow>
                 n = assetName env plat (release_version release) extension
                 \<and> snd (installing_release env plat release t) = t)
          \<and> (\<forall>a. find (\<lambda>a. name a = assetName env plat (release_version release) extension)
                     (assets release) = Some a \<longrightarrow>
                 installing_release env plat release t
                   = install env plat a (release_version release) t))"
  proof
    assume c: "semver_clean s = Some (versionString (release_version release))"
    then obtain extension where e: "assetExtension plat (release_version release) = Inr extension"
      using assetExtension_cleaned [OF c, of plat] by auto
    let ?n = "assetName env plat (release_version release) extension"
    have unf: "installing_release env plat release t =
        (case find (\<lambda>a. name a = ?n) (assets release) of
           None \<Rightarrow> (Inl (AssetNotFound ?n), t)
         | Some asset \<Rightarrow> install env plat asset (release_version release) t)"
      by (simp add: installing_release_def e seq_def lift_def throw_def split: option.splits)
    have noinst: "\<And>a m. fst (install env plat a (release_version release) t) \<noteq> Inl (AssetNotFound m)"
      using raises_only_D [OF install_raises] by fastforce
    show "\<exists>extension. assetExtension plat (release_version release) = Inr extension
          \<and> ((\<exists>n. fst (installing_release env plat release t) = Inl (AssetNotFound n))
               \<longleftrightarrow> (\<forall>a \<in> set (assets release).
                      name a \<noteq> assetName env plat (release_version release) extension))
          \<and> (\<forall>n. fst (installing_release env plat release t) = Inl (AssetNotFound n) \<longrightarrow>
                 n = assetName env plat (release_version release) extension
                 \<and> snd (installing_release env plat release t) = t)
          \<and> (\<forall>a. find (\<lambda>a. name a = assetName env plat (release_version release) extension)
                     (assets release) = Some a \<longrightarrow>
                 installing_release env plat release t
                   = install env plat a (release_version release) t)"
    proof (cases "find (\<lambda>a. name a = ?n) (assets release)")
      case None
      then have "\<forall>a \<in> set (assets release). name a \<noteq> ?n" by (simp add: find_None)
      then show ?thesis using e unf None by auto
    next
      case (Some a)
      then have "\<not> (\<forall>a \<in> set (assets release). name a \<noteq> ?n)"
        using find_None [of "\<lambda>a. name a = ?n" "assets release"] by auto
      then show ?thesis using e unf Some noinst by auto
    qed
  qed
  show ?thesis using 1 2 by blast
qed

lemma installing_release_asset_name_example:
  "semver_clean ''v2.40.0'' = Some ''2.40.0''
   \<and> assetName example_env Linux \<lparr>versionString = ''2.40.0''\<rparr> ''tar.gz''
       = ''gh_2.40.0_linux_amd64.tar.gz''
   \<and> installing_release example_env Linux
        \<lparr>release_version = \<lparr>versionString = ''2.40.0''\<rparr>, assets = []\<rparr> []
       = (Inl (AssetNotFound ''gh_2.40.0_linux_amd64.tar.gz''), [])
   \<and> fst (installing_release example_env Linux
        \<lparr>release_version = \<lparr>versionString = ''2.40.0''\<rparr>,
           assets = example_assets ''2.40.0''\<rparr> [])
       = Inr \<lparr>installed_version = \<lparr>versionString = ''2.40.0''\<rparr>,
               installed_path = ''/opt/hostedtoolcache/gh-cli/2.40.0''\<rparr>"
proof -
  have a: "semver_clean ''v2.40.0'' = Some ''2.40.0''" by code_simp
  have b: "assetName example_env Linux \<lparr>versionString = ''2.40.0''\<rparr> ''tar.gz''
       = ''gh_2.40.0_linux_amd64.tar.gz''" by code_simp
  have c: "installing_release example_env Linux
        \<lparr>release_version = \<lparr>versionString = ''2.40.0''\<rparr>, assets = []\<rparr> []
       = (Inl (AssetNotFound ''gh_2.40.0_linux_amd64.tar.gz''), [])" by code_simp
  have d: "fst (installing_release example_env Linux
        \<lparr>release_version = \<lparr>versionString = ''2.40.0''\<rparr>,
           assets = example_assets ''2.40.0''\<rparr> [])
       = Inr \<lparr>installed_version = \<lparr>versionString = ''2.40.0''\<rparr>,
               installed_path = ''/opt/hostedtoolcache/gh-cli/2.40.0''\<rparr>" by code_simp
  show ?thesis
    using installing_release_asset_name [of example_env Linux "\<lparr>versionString = ''2.40.0''\<rparr>" "''tar.gz''"
        "''v2.40.0''" "\<lparr>release_version = \<lparr>versionString = ''2.40.0''\<rparr>, assets = []\<rparr>" "[]"]
      a b c d by simp
qed

lemma install_prev_raises:
  "raises_only (install_prev env plat asset v) (\<lambda>e. \<forall>n. e \<noteq> AssetNotFound n)"
  unfolding install_prev_def
  apply (rule raises_only_seq)
   apply (rule raises_only_call)
   apply blast
  apply (rule raises_only_seq_lift)
   apply (auto simp: assetExtension_prev_def cleanedVersion_prev_eq split: if_splits option.splits)[1]
  apply (rule raises_only_seq)
   apply (auto intro!: raises_only_seq raises_only_call raises_only_return_run raises_only_throw)[1]
  apply (rule raises_only_seq)
   apply (rule raises_only_call)
   apply blast
  apply (rule raises_only_return_run)
  done

text \<open>
  C3. The earlier revision (part\_000, lines 189 to 193) does not build the name the
  latest revision builds: its template literal takes the function \<open>assetExtension\<close>
  itself, so that the name ends with the source text of that function and never with
  the extension the function returns. With the cleaned tag \<open>c\<close>, the group fails with
  \<open>AssetNotFound\<close> exactly when no asset is named
  \<open>gh_\<close> + \<open>c\<close> + \<open>_\<close> + family + \<open>_\<close> + architecture + \<open>.\<close> + that source text. For every
  source text other than \<open>tar.gz\<close>, the release \<open>v2.40.0\<close> on linux and x64 ends with
  \<open>AssetNotFound\<close> and no collaborator call, although \<open>assetExtension\<close> returns \<open>tar.gz\<close>
  for this version and the release holds the asset \<open>gh_2.40.0_linux_amd64.tar.gz\<close>.
\<close>

theorem C3_earlier_revision_asset_not_found:
  "(semver_clean (tag_name release) = Some c \<longrightarrow>
      ((\<exists>n. fst (installing_release_prev env plat assetExtension_text release t)
              = Inl (AssetNotFound n))
       \<longleftrightarrow> (\<forall>a \<in> set (data_assets release).
              name a \<noteq> ''gh_'' @ c @ ''_'' @ os_family_string plat @ ''_''
                          @ osArch (os_arch env) @ ''.'' @ assetExtension_text)))
   \<and> (assetExtension_text \<noteq> ''tar.gz'' \<longrightarrow>
        find (\<lambda>a. name a = ''gh_2.40.0_linux_amd64.tar.gz'') (example_assets ''2.40.0'') \<noteq> None
        \<and> assetExtension_prev Linux ''2.40.0'' = Inr ''tar.gz''
        \<and> installing_release_prev example_env Linux assetExtension_text
             \<lparr>tag_name = ''v2.40.0'', data_assets = example_assets ''2.40.0''\<rparr> t
            = (Inl (AssetNotFound (''gh_2.40.0_linux_amd64.'' @ assetExtension_text)), t))"
proof -
  have 1: "semver_clean (tag_name release) = Some c \<longrightarrow>
      ((\<exists>n. fst (installing_release_prev env plat assetExtension_text release t)
              = Inl (AssetNotFound n))
       \<longleftrightarrow> (\<forall>a \<in> set (data_assets release).
              name a \<noteq> ''gh_'' @ c @ ''_'' @ os_family_string plat @ ''_''
                          @ osArch (os_arch env) @ ''.'' @ assetExtension_text))"
  proof
    assume c: "semver_clean (tag_name release) = Some c"
    let ?n = "''gh_'' @ c @ ''_'' @ os_family_string plat @ ''_''
                          @ osArch (os_arch env) @ ''.'' @ assetExtension_text"
    have unf: "installing_release_prev env plat assetExtension_text release t =
        (case find (\<lambda>a. name a = ?n) (data_assets release) of
           None \<Rightarrow> (Inl (AssetNotFound ?n), t)
         | Some asset \<Rightarrow> install_prev env plat asset c t)"
      by (simp add: installing_release_prev_def cleanedVersion_prev_eq c seq_def lift_def
            throw_def Let_def split: option.splits)
    have noinst: "\<And>a m. fst (install_prev env plat a c t) \<noteq> Inl (AssetNotFound m)"
      using raises_only_D [OF install_prev_raises] by fastforce
    show "(\<exists>n. fst (installing_release_prev env plat assetExtension_text release t)
              = Inl (AssetNotFound n))
       \<longleftrightarrow> (\<forall>a \<in> set (data_assets release). name a \<noteq> ?n)"
    proof (cases "find (\<lambda>a. name a = ?n) (data_assets release)")
      case None
      then have "\<forall>a \<in> set (data_assets release). name a \<noteq> ?n" by (simp add: find_None)
      then show ?thesis using unf None by auto
    next
      case (Some a)
      then have "\<not> (\<forall>a \<in> set (data_assets release). name a \<noteq> ?n)"
        using find_None [of "\<lambda>a. name a = ?n" "data_assets release"] by auto
      then show ?thesis using unf Some noinst by auto
    qed
  qed
  have a: "semver_clean ''v2.40.0'' = Some ''2.40.0''" by code_simp
  have b: "find (\<lambda>a. name a = ''gh_2.40.0_linux_amd64.tar.gz'') (example_assets ''2.40.0'') \<noteq> None"
    by code_simp
  have e: "assetExtension_prev Linux ''2.40.0'' = Inr ''tar.gz''" by code_simp
  have 2: "assetExtension_text \<noteq> ''tar.gz'' \<longrightarrow>
        find (\<lambda>a. name a = ''gh_2.40.0_linux_amd64.tar.gz'') (example_assets ''2.40.0'') \<noteq> None
        \<and> assetExtension_prev Linux ''2.40.0'' = Inr ''tar.gz''
        \<and> installing_release_prev example_env Linux assetExtension_text
             \<lparr>tag_name = ''v2.40.0'', data_assets = example_assets ''2.40.0''\<rparr> t
            = (Inl (AssetNotFound (''gh_2.40.0_linux_amd64.'' @ assetExtension_text)), t)"
    using b e
    by (simp add: installing_release_prev_def cleanedVersion_prev_eq a seq_def lift_def
          throw_def Let_def example_assets_def example_env_def osArch_def)
  show ?thesis using 1 2 by blast
qed

theorem C3_earlier_revision_asset_not_found_witness:
  "semver_clean ''v2.40.0'' = Some ''2.40.0''
   \<and> ''function assetExtension(version) { }'' \<noteq> ''tar.gz''
   \<and> installing_release_prev example_env Linux ''function assetExtension(version) { }''
        \<lparr>tag_name = ''v2.40.0'', data_assets = example_assets ''2.40.0''\<rparr> []
       = (Inl (AssetNotFound ''gh_2.40.0_linux_amd64.function assetExtension(version) { }''), [])
   \<and> map name (example_assets ''2.40.0'')
       = [''gh_2.40.0_linux_amd64.tar.gz'', ''gh_2.40.0_macOS_amd64.zip'']
   \<and> fst (installing_release example_env Linux
        \<lparr>release_version = \<lparr>versionString = ''2.40.0''\<rparr>,
           assets = example_assets ''2.40.0''\<rparr> [])
       = Inr \<lparr>installed_version = \<lparr>versionString = ''2.40.0''\<rparr>,
               installed_path = ''/opt/hostedtoolcache/gh-cli/2.40.0''\<rparr>"
proof -
  have a: "semver_clean ''v2.40.0'' = Some ''2.40.0''" by code_simp
  have b: "map name (example_assets ''2.40.0'')
       = [''gh_2.40.0_linux_amd64.tar.gz'', ''gh_2.40.0_macOS_amd64.zip'']" by code_simp
  have d: "fst (installing_release example_env Linux
        \<lparr>release_version = \<lparr>versionString = ''2.40.0''\<rparr>,
           assets = example_assets ''2.40.0''\<rparr> [])
       = Inr \<lparr>installed_version = \<lparr>versionString = ''2.40.0''\<rparr>,
               installed_path = ''/opt/hostedtoolcache/gh-cli/2.40.0''\<rparr>" by code_simp
  show ?thesis
    using C3_earlier_revision_asset_not_found [of
        "\<lparr>tag_name = ''v2.40.0'', data_assets = example_assets ''2.40.0''\<rparr>" "''2.40.0''"
        example_env Linux "''function assetExtension(version) { }''" "[]"] a b d
    by simp
qed

subsection \<open>Directory resolution\<close>



subsection \<open>Verification and publication\<close>

lemma indexOf_from_sublist: "0 \<le> i \<Longrightarrow> indexOf_from s t i < 0 \<longleftrightarrow> \<not> sublist t s"
proof (induction s arbitrary: i)
  case Nil
  then show ?case by simp
next
  case (Cons c cs)
  show ?case
  proof (cases "prefix t (c # cs)")
    case True
    then show ?thesis using Cons.prems by (auto simp: sublist_Cons_right)
  next
    case False
    then show ?thesis using Cons.IH [of "i + 1"] Cons.prems by (simp add: sublist_Cons_right)
  qed
qed

lemma indexOf_sublist: "indexOf s t < 0 \<longleftrightarrow> \<not> sublist t s"
  by (simp add: indexOf_def indexOf_from_sublist)

lemma outputs_append: "outputs (a @ b) = outputs a @ outputs b"
  by (induction a rule: outputs.induct) simp_all

lemma check_installation_eq:
  "check_installation env plat iv t =
     (case getExecOutput env (t @ [AddPath (path_join env (installed_path iv) ''bin'')])
             (execName plat) [''version''] of
        Inl msg \<Rightarrow>
          (Inl (External msg),
           t @ [AddPath (path_join env (installed_path iv) ''bin''),
                GetExecOutput (execName plat) [''version'']])
      | Inr stdout \<Rightarrow>
          if sublist (versionString (installed_version iv)) stdout
          then (Inr (),
                t @ [AddPath (path_join env (installed_path iv) ''bin''),
                     GetExecOutput (execName plat) [''version''],
                     SetOutput ''installed-version'' (versionString (installed_version iv))])
          else (Inl (VerificationFailed (versionString (installed_version iv)) stdout),
                t @ [AddPath (path_join env (installed_path iv) ''bin''),
                     GetExecOutput (execName plat) [''version'']]))"
  by (simp add: check_installation_def seq_def effect_def call_def throw_def indexOf_sublist
        split: sum.splits)

lemma debug_installation_shape:
  "\<exists>es. snd (debug_installation env iv t) = t @ es \<and> outputs es = []
     \<and> list_all (\<lambda>e. \<not> resolution_or_installation e \<and> e \<noteq> Info ''Found cached version.'') es
     \<and> (\<forall>e. fst (debug_installation env iv t) = Inl e \<longrightarrow> (\<exists>msg. e = External msg))"
  by (auto simp: debug_installation_def seq_def effect_def call_def return_run_def
        split: sum.splits)

lemma setAndCheckOutput_eq:
  "\<exists>es r. debug_installation env iv (t @ [StartGroup ''Checking installation'']) = (r, t @ es)
     \<and> outputs es = []
     \<and> list_all (\<lambda>e. \<not> resolution_or_installation e \<and> e \<noteq> Info ''Found cached version.'') es
     \<and> setAndCheckOutput env plat iv t =
         (case r of
            Inl e \<Rightarrow> (Inl e, t @ es @ [EndGroup])
          | Inr u \<Rightarrow> (fst (check_installation env plat iv (t @ es)),
                      snd (check_installation env plat iv (t @ es)) @ [EndGroup]))
     \<and> (\<forall>e. r = Inl e \<longrightarrow> (\<exists>msg. e = External msg))"
proof -
  obtain es where es: "snd (debug_installation env iv (t @ [StartGroup ''Checking installation'']))
      = (t @ [StartGroup ''Checking installation'']) @ es" "outputs es = []"
    "list_all (\<lambda>e. \<not> resolution_or_installation e \<and> e \<noteq> Info ''Found cached version.'') es"
    "\<forall>e. fst (debug_installation env iv (t @ [StartGroup ''Checking installation''])) = Inl e
       \<longrightarrow> (\<exists>msg. e = External msg)"
    using debug_installation_shape [of env iv "t @ [StartGroup ''Checking installation'']"] by blast
  obtain r where r: "debug_installation env iv (t @ [StartGroup ''Checking installation''])
      = (r, t @ (StartGroup ''Checking installation'' # es))"
    using es(1) by (cases "debug_installation env iv (t @ [StartGroup ''Checking installation''])") auto
  have "setAndCheckOutput env plat iv t =
         (case r of
            Inl e \<Rightarrow> (Inl e, t @ (StartGroup ''Checking installation'' # es) @ [EndGroup])
          | Inr u \<Rightarrow> (fst (check_installation env plat iv (t @ (StartGroup ''Checking installation'' # es))),
                      snd (check_installation env plat iv (t @ (StartGroup ''Checking installation'' # es))) @ [EndGroup]))"
    using r by (auto simp: setAndCheckOutput_def group_def seq_def split: sum.splits prod.splits)
  then show ?thesis
    using r es by (intro exI [of _ "StartGroup ''Checking installation'' # es"] exI [of _ r]) auto
qed

lemma setAndCheckOutput_normal_form:
  "setAndCheckOutput env plat iv t =
     (let v = versionString (installed_version iv);
          bin = path_join env (installed_path iv) ''bin'';
          exec = GetExecOutput (execName plat) [''version''];
          verify = (\<lambda>h. case getExecOutput env (h @ [AddPath bin]) (execName plat) [''version''] of
                       Inl msg \<Rightarrow> (Inl (External msg), h @ [AddPath bin, exec, EndGroup])
                     | Inr stdout \<Rightarrow>
                         if sublist v stdout
                         then (Inr (), h @ [AddPath bin, exec, SetOutput ''installed-version'' v,
                                            EndGroup])
                         else (Inl (VerificationFailed v stdout),
                               h @ [AddPath bin, exec, EndGroup]));
          t0 = t @ [StartGroup ''Checking installation''];
          dbg = [IsDebug, Debug (''Installed version: '' @ v),
                 Debug (''Installed path: '' @ installed_path iv), Debug ''Contents of path:'']
      in if core_isDebug env t0
         then (case fs_readdirSync env (t0 @ dbg) (installed_path iv) of
                 Inl msg \<Rightarrow>
                   (Inl (External msg), t0 @ dbg @ [ReaddirSync (installed_path iv), EndGroup])
               | Inr contents \<Rightarrow>
                   verify (t0 @ dbg @ [ReaddirSync (installed_path iv),
                                       Debug (join [CHR 0x0A] contents)]))
         else verify (t0 @ [IsDebug]))"
  by (simp add: setAndCheckOutput_def debug_installation_def check_installation_def group_def
        seq_def call_def effect_def throw_def return_run_def indexOf_sublist Let_def
        split: sum.splits)

lemma setAndCheckOutput_success:
  assumes "fst (setAndCheckOutput env plat iv t) = Inr ()"
  shows "\<exists>es stdout. snd (setAndCheckOutput env plat iv t)
           = t @ es @ [GetExecOutput (execName plat) [''version''],
                       SetOutput ''installed-version'' (versionString (installed_version iv)),
                       EndGroup]
         \<and> getExecOutput env (t @ es) (execName plat) [''version''] = Inr stdout
         \<and> sublist (versionString (installed_version iv)) stdout"
proof -
  let ?v = "versionString (installed_version iv)"
  let ?bin = "path_join env (installed_path iv) ''bin''"
  let ?t0 = "t @ [StartGroup ''Checking installation'']"
  let ?dbg = "[IsDebug, Debug (''Installed version: '' @ ?v),
                 Debug (''Installed path: '' @ installed_path iv), Debug ''Contents of path:'']"
  have verify: "\<And>h es0. h = t @ es0 \<Longrightarrow>
      fst (case getExecOutput env (h @ [AddPath ?bin]) (execName plat) [''version''] of
                       Inl msg \<Rightarrow> (Inl (External msg), h @ [AddPath ?bin, GetExecOutput (execName plat) [''version''], EndGroup])
                     | Inr stdout \<Rightarrow>
                         if sublist ?v stdout
                         then (Inr (), h @ [AddPath ?bin, GetExecOutput (execName plat) [''version''], SetOutput ''installed-version'' ?v,
                                            EndGroup])
                         else (Inl (VerificationFailed ?v stdout),
                               h @ [AddPath ?bin, GetExecOutput (execName plat) [''version''], EndGroup])) = Inr () \<Longrightarrow>
      \<exists>es stdout. snd (case getExecOutput env (h @ [AddPath ?bin]) (execName plat) [''version''] of
                       Inl msg \<Rightarrow> (Inl (External msg), h @ [AddPath ?bin, GetExecOutput (execName plat) [''version''], EndGroup])
                     | Inr stdout \<Rightarrow>
                         if sublist ?v stdout
                         then (Inr (), h @ [AddPath ?bin, GetExecOutput (execName plat) [''version''], SetOutput ''installed-version'' ?v,
                                            EndGroup])
                         else (Inl (VerificationFailed ?v stdout),
                               h @ [AddPath ?bin, GetExecOutput (execName plat) [''version''], EndGroup]))
           = t @ es @ [GetExecOutput (execName plat) [''version''],
                       SetOutput ''installed-version'' ?v, EndGroup]
         \<and> getExecOutput env (t @ es) (execName plat) [''version''] = Inr stdout
         \<and> sublist ?v stdout"
  proof -
    fix h es0 assume h: "h = t @ es0"
    assume ok: "fst (case getExecOutput env (h @ [AddPath ?bin]) (execName plat) [''version''] of
                       Inl msg \<Rightarrow> (Inl (External msg), h @ [AddPath ?bin, GetExecOutput (execName plat) [''version''], EndGroup])
                     | Inr stdout \<Rightarrow>
                         if sublist ?v stdout
                         then (Inr (), h @ [AddPath ?bin, GetExecOutput (execName plat) [''version''], SetOutput ''installed-version'' ?v,
                                            EndGroup])
                         else (Inl (VerificationFailed ?v stdout),
                               h @ [AddPath ?bin, GetExecOutput (execName plat) [''version''], EndGroup])) = Inr ()"
    then obtain stdout where s: "getExecOutput env (h @ [AddPath ?bin]) (execName plat) [''version''] = Inr stdout"
      "sublist ?v stdout"
      by (auto split: sum.splits if_splits)
    show "\<exists>es stdout. snd (case getExecOutput env (h @ [AddPath ?bin]) (execName plat) [''version''] of
                       Inl msg \<Rightarrow> (Inl (External msg), h @ [AddPath ?bin, GetExecOutput (execName plat) [''version''], EndGroup])
                     | Inr stdout \<Rightarrow>
                         if sublist ?v stdout
                         then (Inr (), h @ [AddPath ?bin, GetExecOutput (execName plat) [''version''], SetOutput ''installed-version'' ?v,
                                            EndGroup])
                         else (Inl (VerificationFailed ?v stdout),
                               h @ [AddPath ?bin, GetExecOutput (execName plat) [''version''], EndGroup]))
           = t @ es @ [GetExecOutput (execName plat) [''version''],
                       SetOutput ''installed-version'' ?v, EndGroup]
         \<and> getExecOutput env (t @ es) (execName plat) [''version''] = Inr stdout
         \<and> sublist ?v stdout"
      using s h by (intro exI [of _ "es0 @ [AddPath ?bin]"] exI [of _ stdout]) simp
  qed
  show ?thesis
  proof (cases "core_isDebug env ?t0")
    case False
    then show ?thesis
      using assms verify [of "?t0 @ [IsDebug]" "[StartGroup ''Checking installation'', IsDebug]"]
      unfolding setAndCheckOutput_normal_form Let_def by simp
  next
    case True
    show ?thesis
    proof (cases "fs_readdirSync env (?t0 @ ?dbg) (installed_path iv)")
      case (Inl msg)
      then show ?thesis
        using assms True unfolding setAndCheckOutput_normal_form Let_def by simp
    next
      case (Inr contents)
      then show ?thesis
        using assms True
          verify [of "?t0 @ ?dbg @ [ReaddirSync (installed_path iv), Debug (join [CHR 0x0A] contents)]"
                     "StartGroup ''Checking installation'' # ?dbg @ [ReaddirSync (installed_path iv), Debug (join [CHR 0x0A] contents)]"]
        unfolding setAndCheckOutput_normal_form Let_def by simp
    qed
  qed
qed

text \<open>
  C9. Verification runs the version subcommand of the installed executable and fails
  with \<open>VerificationFailed\<close> exactly when the installed version string is not a substring
  of the standard output; the output \<open>installed-version\<close> is set only when the whole check
  succeeds, and its value is the version string of the installed version. The fourth
  part gives every run of \<open>setAndCheckOutput\<close>, with and without debug logging: the
  executable is run after the directory \<open>bin\<close> is added to the path, and the output is set
  on one branch only, after a standard output that contains the version. The last part
  reads the same from a successful run: its trace ends with the execution of the
  version subcommand, the output and the end of the group, and the answer of that
  execution contains the version.
\<close>

theorem C9_verification:
  "(getExecOutput env (t @ [AddPath (path_join env (installed_path iv) ''bin'')])
        (execName plat) [''version''] = Inr stdout \<longrightarrow>
      (fst (check_installation env plat iv t)
          = Inl (VerificationFailed (versionString (installed_version iv)) stdout)
        \<longleftrightarrow> \<not> sublist (versionString (installed_version iv)) stdout)
      \<and> (fst (check_installation env plat iv t) = Inr ()
        \<longleftrightarrow> sublist (versionString (installed_version iv)) stdout)
      \<and> snd (check_installation env plat iv t)
          = t @ [AddPath (path_join env (installed_path iv) ''bin''),
                 GetExecOutput (execName plat) [''version'']]
              @ (if sublist (versionString (installed_version iv)) stdout
                 then [SetOutput ''installed-version'' (versionString (installed_version iv))]
                 else []))
   \<and> (fst (setAndCheckOutput env plat iv t) = Inl (VerificationFailed a b) \<longrightarrow>
        a = versionString (installed_version iv) \<and> \<not> sublist a b)
   \<and> outputs (snd (setAndCheckOutput env plat iv t))
       = outputs t @ (if fst (setAndCheckOutput env plat iv t) = Inr ()
                      then [(''installed-version'', versionString (installed_version iv))]
                      else [])
   \<and> setAndCheckOutput env plat iv t =
       (let v = versionString (installed_version iv);
            bin = path_join env (installed_path iv) ''bin'';
            exec = GetExecOutput (execName plat) [''version''];
            verify = (\<lambda>h. case getExecOutput env (h @ [AddPath bin]) (execName plat) [''version''] of
                         Inl msg \<Rightarrow> (Inl (External msg), h @ [AddPath bin, exec, EndGroup])
                       | Inr stdout \<Rightarrow>
                           if sublist v stdout
                           then (Inr (), h @ [AddPath bin, exec, SetOutput ''installed-version'' v,
                                              EndGroup])
                           else (Inl (VerificationFailed v stdout),
                                 h @ [AddPath bin, exec, EndGroup]));
            t0 = t @ [StartGroup ''Checking installation''];
            dbg = [IsDebug, Debug (''Installed version: '' @ v),
                   Debug (''Installed path: '' @ installed_path iv), Debug ''Contents of path:'']
        in if core_isDebug env t0
           then (case fs_readdirSync env (t0 @ dbg) (installed_path iv) of
                   Inl msg \<Rightarrow>
                     (Inl (External msg), t0 @ dbg @ [ReaddirSync (installed_path iv), EndGroup])
                 | Inr contents \<Rightarrow>
                     verify (t0 @ dbg @ [ReaddirSync (installed_path iv),
                                         Debug (join [CHR 0x0A] contents)]))
           else verify (t0 @ [IsDebug]))
   \<and> (fst (setAndCheckOutput env plat iv t) = Inr () \<longrightarrow>
        (\<exists>es answer. snd (setAndCheckOutput env plat iv t)
             = t @ es @ [GetExecOutput (execName plat) [''version''],
                         SetOutput ''installed-version'' (versionString (installed_version iv)),
                         EndGroup]
           \<and> getExecOutput env (t @ es) (execName plat) [''version''] = Inr answer
           \<and> sublist (versionString (installed_version iv)) answer))"
proof -
  have 1: "getExecOutput env (t @ [AddPath (path_join env (installed_path iv) ''bin'')])
        (execName plat) [''version''] = Inr stdout \<longrightarrow>
      (fst (check_installation env plat iv t)
          = Inl (VerificationFailed (versionString (installed_version iv)) stdout)
        \<longleftrightarrow> \<not> sublist (versionString (installed_version iv)) stdout)
      \<and> (fst (check_installation env plat iv t) = Inr ()
        \<longleftrightarrow> sublist (versionString (installed_version iv)) stdout)
      \<and> snd (check_installation env plat iv t)
          = t @ [AddPath (path_join env (installed_path iv) ''bin''),
                 GetExecOutput (execName plat) [''version'']]
              @ (if sublist (versionString (installed_version iv)) stdout
                 then [SetOutput ''installed-version'' (versionString (installed_version iv))]
                 else [])"
    by (simp add: check_installation_eq)
  obtain es and r :: "error + unit" where d: "outputs es = []"
    and eq: "setAndCheckOutput env plat iv t =
         (case r of
            Inl e \<Rightarrow> (Inl e, t @ es @ [EndGroup])
          | Inr u \<Rightarrow> (fst (check_installation env plat iv (t @ es)),
                      snd (check_installation env plat iv (t @ es)) @ [EndGroup]))"
    and ext: "\<forall>e. r = Inl e \<longrightarrow> (\<exists>msg. e = External msg)"
    using setAndCheckOutput_eq [of env iv t plat] by blast
  have 2: "fst (setAndCheckOutput env plat iv t) = Inl (VerificationFailed a b) \<longrightarrow>
        a = versionString (installed_version iv) \<and> \<not> sublist a b"
    using ext unfolding eq check_installation_eq
    by (cases r) (auto split: sum.splits if_splits)
  have 3: "outputs (snd (setAndCheckOutput env plat iv t))
       = outputs t @ (if fst (setAndCheckOutput env plat iv t) = Inr ()
                      then [(''installed-version'', versionString (installed_version iv))]
                      else [])"
    using d unfolding eq check_installation_eq
    by (cases r) (auto simp: outputs_append split: sum.splits if_splits)
  have 5: "fst (setAndCheckOutput env plat iv t) = Inr () \<longrightarrow>
        (\<exists>es answer. snd (setAndCheckOutput env plat iv t)
             = t @ es @ [GetExecOutput (execName plat) [''version''],
                         SetOutput ''installed-version'' (versionString (installed_version iv)),
                         EndGroup]
           \<and> getExecOutput env (t @ es) (execName plat) [''version''] = Inr answer
           \<and> sublist (versionString (installed_version iv)) answer)"
    using setAndCheckOutput_success [of env plat iv t] by blast
  show ?thesis
    by (rule conjI [OF 1 conjI [OF 2 conjI [OF 3
          conjI [OF setAndCheckOutput_normal_form 5]]]])
qed

theorem C9_verification_witness:
  "getExecOutput example_env [AddPath (path_join example_env ''/cache/gh'' ''bin'')]
      (execName Linux) [''version''] = Inr ''gh version 2.40.0 (2023-12-07)''
   \<and> sublist ''2.40.0'' ''gh version 2.40.0 (2023-12-07)''
   \<and> setAndCheckOutput example_env Linux
        \<lparr>installed_version = \<lparr>versionString = ''2.40.0''\<rparr>, installed_path = ''/cache/gh''\<rparr> []
      = (Inr (), [StartGroup ''Checking installation'', IsDebug, AddPath ''/cache/gh/bin'',
                  GetExecOutput ''gh'' [''version''],
                  SetOutput ''installed-version'' ''2.40.0'', EndGroup])
   \<and> fst (setAndCheckOutput example_env Linux
        \<lparr>installed_version = \<lparr>versionString = ''2.41.0''\<rparr>, installed_path = ''/cache/gh''\<rparr> [])
      = Inl (VerificationFailed ''2.41.0'' ''gh version 2.40.0 (2023-12-07)'')
   \<and> \<not> sublist ''2.41.0'' ''gh version 2.40.0 (2023-12-07)''
   \<and> setAndCheckOutput
        (example_env\<lparr>core_isDebug := \<lambda>t. True, fs_readdirSync := \<lambda>t p. Inr [''bin'']\<rparr>) Linux
        \<lparr>installed_version = \<lparr>versionString = ''2.41.0''\<rparr>, installed_path = ''/cache/gh''\<rparr> []
      = (Inl (VerificationFailed ''2.41.0'' ''gh version 2.40.0 (2023-12-07)''),
         [StartGroup ''Checking installation'', IsDebug, Debug ''Installed version: 2.41.0'',
          Debug ''Installed path: /cache/gh'', Debug ''Contents of path:'',
          ReaddirSync ''/cache/gh'', Debug ''bin'', AddPath ''/cache/gh/bin'',
          GetExecOutput ''gh'' [''version''], EndGroup])
   \<and> (\<exists>es answer.
        snd (setAndCheckOutput example_env Linux
          \<lparr>installed_version = \<lparr>versionString = ''2.40.0''\<rparr>, installed_path = ''/cache/gh''\<rparr> [])
          = es @ [GetExecOutput ''gh'' [''version''],
                  SetOutput ''installed-version'' ''2.40.0'', EndGroup]
        \<and> getExecOutput example_env es ''gh'' [''version''] = Inr answer
        \<and> sublist ''2.40.0'' answer)"
proof -
  have a: "getExecOutput example_env [AddPath (path_join example_env ''/cache/gh'' ''bin'')]
      (execName Linux) [''version''] = Inr ''gh version 2.40.0 (2023-12-07)''" by code_simp
  have b: "setAndCheckOutput example_env Linux
        \<lparr>installed_version = \<lparr>versionString = ''2.40.0''\<rparr>, installed_path = ''/cache/gh''\<rparr> []
      = (Inr (), [StartGroup ''Checking installation'', IsDebug, AddPath ''/cache/gh/bin'',
                  GetExecOutput ''gh'' [''version''],
                  SetOutput ''installed-version'' ''2.40.0'', EndGroup])" by code_simp
  have c: "fst (setAndCheckOutput example_env Linux
        \<lparr>installed_version = \<lparr>versionString = ''2.41.0''\<rparr>, installed_path = ''/cache/gh''\<rparr> [])
      = Inl (VerificationFailed ''2.41.0'' ''gh version 2.40.0 (2023-12-07)'')" by code_simp
  have d: "fst (check_installation example_env Linux
        \<lparr>installed_version = \<lparr>versionString = ''2.40.0''\<rparr>, installed_path = ''/cache/gh''\<rparr> [])
      = Inr ()" by code_simp
  have e: "setAndCheckOutput
        (example_env\<lparr>core_isDebug := \<lambda>t. True, fs_readdirSync := \<lambda>t p. Inr [''bin'']\<rparr>) Linux
        \<lparr>installed_version = \<lparr>versionString = ''2.41.0''\<rparr>, installed_path = ''/cache/gh''\<rparr> []
      = (Inl (VerificationFailed ''2.41.0'' ''gh version 2.40.0 (2023-12-07)''),
         [StartGroup ''Checking installation'', IsDebug, Debug ''Installed version: 2.41.0'',
          Debug ''Installed path: /cache/gh'', Debug ''Contents of path:'',
          ReaddirSync ''/cache/gh'', Debug ''bin'', AddPath ''/cache/gh/bin'',
          GetExecOutput ''gh'' [''version''], EndGroup])" by code_simp
  have f: "execName Linux = ''gh''" by code_simp
  have g: "sublist ''2.40.0'' ''gh version 2.40.0 (2023-12-07)''"
    using C9_verification [of example_env "[]"
        "\<lparr>installed_version = \<lparr>versionString = ''2.40.0''\<rparr>, installed_path = ''/cache/gh''\<rparr>"
        Linux "''gh version 2.40.0 (2023-12-07)''", THEN conjunct1] a d
    by simp
  have h: "\<not> sublist ''2.41.0'' ''gh version 2.40.0 (2023-12-07)''"
    using C9_verification [of example_env "[]"
        "\<lparr>installed_version = \<lparr>versionString = ''2.41.0''\<rparr>, installed_path = ''/cache/gh''\<rparr>"
        Linux _ "''2.41.0''" "''gh version 2.40.0 (2023-12-07)''", THEN conjunct2, THEN conjunct1] c
    by simp
  have i: "\<exists>es answer.
        snd (setAndCheckOutput example_env Linux
          \<lparr>installed_version = \<lparr>versionString = ''2.40.0''\<rparr>, installed_path = ''/cache/gh''\<rparr> [])
          = es @ [GetExecOutput ''gh'' [''version''],
                  SetOutput ''installed-version'' ''2.40.0'', EndGroup]
        \<and> getExecOutput example_env es ''gh'' [''version''] = Inr answer
        \<and> sublist ''2.40.0'' answer"
    using C9_verification [of example_env "[]"
        "\<lparr>installed_version = \<lparr>versionString = ''2.40.0''\<rparr>, installed_path = ''/cache/gh''\<rparr>"
        Linux, THEN conjunct2, THEN conjunct2, THEN conjunct2, THEN conjunct2] b
    by (simp add: f)
  show ?thesis using a b c e g h i by simp
qed

subsection \<open>The cache key of the two revisions\<close>

text \<open>
  C10. The cache check of the earlier revision normalizes the tag name (\<open>v\<close> followed by
  the cleaned version) again before it asks the cache, the one of the latest revision
  asks with the cleaned version: normalizing \<open>v\<close> followed by a cleaned version gives the
  cleaned version back, the two constructors accept the same strings, and for every
  accepted string the two checks make the same call of the cache and return the same
  version and path.
\<close>

theorem C10_cache_key:
  "(semver_clean s = Some c \<longrightarrow> semver_clean (''v'' @ c) = Some c)
   \<and> ((\<exists>r'. new_RequestedVersion_prev s = Inr r') \<longleftrightarrow> (\<exists>r. new_RequestedVersion s = Inr r))
   \<and> (new_RequestedVersion_prev s = Inr r' \<and> new_RequestedVersion s = Inr r \<longrightarrow>
        snd (checking_cache_prev env r' t) = snd (checking_cache env r t)
        \<and> map_sum id (map_option (\<lambda>i. (version_prev i, path_prev i)))
             (fst (checking_cache_prev env r' t))
          = map_sum id (map_option (\<lambda>i. (versionString (installed_version i), installed_path i)))
             (fst (checking_cache env r t)))
   \<and> (new_RequestedVersion_prev s = Inr r' \<and> new_RequestedVersion s = Inr r
        \<and> s \<noteq> ''stable'' \<and> s \<noteq> ''latest'' \<longrightarrow>
        (\<exists>c. semver_clean s = Some c
           \<and> take (Suc (length t)) (snd (checking_cache_prev env r' t)) = t @ [Find toolName c]
           \<and> take (Suc (length t)) (snd (checking_cache env r t)) = t @ [Find toolName c]))"
proof -
  have 1: "semver_clean s = Some c \<longrightarrow> semver_clean (''v'' @ c) = Some c"
    using semver_clean_idempotent by blast
  have 2: "(\<exists>r'. new_RequestedVersion_prev s = Inr r') \<longleftrightarrow> (\<exists>r. new_RequestedVersion s = Inr r)"
    by (auto simp: new_RequestedVersion_prev_def new_RequestedVersion_def cleanedVersion_eq
          cleanedVersion_prev_eq split: option.splits)
  have exact: "\<And>c. semver_clean s = Some c \<Longrightarrow>
      checkCache_prev env (''v'' @ c) t
        = (case tools_find env t toolName c of
             Inl msg \<Rightarrow> (Inl (External msg), t @ [Find toolName c])
           | Inr cachedVersion \<Rightarrow>
               if cachedVersion \<noteq> []
               then (Inr (Some \<lparr>version_prev = c, path_prev = cachedVersion\<rparr>),
                     t @ [Find toolName c, Info ''Found cached version.''])
               else (Inr None, t @ [Find toolName c]))"
  proof -
    fix c assume "semver_clean s = Some c"
    then have "semver_clean (''v'' @ c) = Some c" by (rule semver_clean_idempotent)
    then show "checkCache_prev env (''v'' @ c) t
        = (case tools_find env t toolName c of
             Inl msg \<Rightarrow> (Inl (External msg), t @ [Find toolName c])
           | Inr cachedVersion \<Rightarrow>
               if cachedVersion \<noteq> []
               then (Inr (Some \<lparr>version_prev = c, path_prev = cachedVersion\<rparr>),
                     t @ [Find toolName c, Info ''Found cached version.''])
               else (Inr None, t @ [Find toolName c]))"
      by (simp add: checkCache_prev_def cleanedVersion_prev_eq seq_def lift_def call_def
            effect_def return_run_def split: sum.splits)
  qed
  have latest: "\<And>c. checkCache env \<lparr>versionString = c\<rparr> t
        = (case tools_find env t toolName c of
             Inl msg \<Rightarrow> (Inl (External msg), t @ [Find toolName c])
           | Inr cachedVersion \<Rightarrow>
               if cachedVersion \<noteq> []
               then (Inr (Some \<lparr>installed_version = \<lparr>versionString = c\<rparr>,
                                 installed_path = cachedVersion\<rparr>),
                     t @ [Find toolName c, Info ''Found cached version.''])
               else (Inr None, t @ [Find toolName c]))"
    by (simp add: checkCache_def seq_def call_def effect_def return_run_def split: sum.splits)
  have mode: "s = ''stable'' \<or> s = ''latest'' \<Longrightarrow>
      new_RequestedVersion_prev s = Inr r' \<Longrightarrow> new_RequestedVersion s = Inr r \<Longrightarrow>
      checking_cache_prev env r' t = (Inr None, t) \<and> checking_cache env r t = (Inr None, t)"
    by (auto simp: new_RequestedVersion_prev_def new_RequestedVersion_def
          checking_cache_prev_def checking_cache_def isStable_prev_def isLatest_prev_def
          isStable_def isLatest_def isStable_static_def isLatest_static_def return_run_def)
  have ex: "s \<noteq> ''stable'' \<Longrightarrow> s \<noteq> ''latest'' \<Longrightarrow>
      new_RequestedVersion_prev s = Inr r' \<Longrightarrow> new_RequestedVersion s = Inr r \<Longrightarrow>
      \<exists>c. semver_clean s = Some c
        \<and> checking_cache_prev env r' t = checkCache_prev env (''v'' @ c) t
        \<and> checking_cache env r t = checkCache env \<lparr>versionString = c\<rparr> t"
    using semver_clean_nonempty [of s]
    by (auto simp: new_RequestedVersion_prev_def new_RequestedVersion_def cleanedVersion_eq
          cleanedVersion_prev_eq checking_cache_prev_def checking_cache_def
          isStable_prev_def isLatest_prev_def isStable_def isLatest_def tagName_prev_def
          isStable_static_def isLatest_static_def get_cleanedVersion_def seq_def lift_def
          split: option.splits)
  have 3: "new_RequestedVersion_prev s = Inr r' \<and> new_RequestedVersion s = Inr r \<longrightarrow>
        snd (checking_cache_prev env r' t) = snd (checking_cache env r t)
        \<and> map_sum id (map_option (\<lambda>i. (version_prev i, path_prev i)))
             (fst (checking_cache_prev env r' t))
          = map_sum id (map_option (\<lambda>i. (versionString (installed_version i), installed_path i)))
             (fst (checking_cache env r t))"
  proof (intro impI, elim conjE)
    assume c: "new_RequestedVersion_prev s = Inr r'" "new_RequestedVersion s = Inr r"
    show "snd (checking_cache_prev env r' t) = snd (checking_cache env r t)
        \<and> map_sum id (map_option (\<lambda>i. (version_prev i, path_prev i)))
             (fst (checking_cache_prev env r' t))
          = map_sum id (map_option (\<lambda>i. (versionString (installed_version i), installed_path i)))
             (fst (checking_cache env r t))"
    proof (cases "s = ''stable'' \<or> s = ''latest''")
      case True
      then show ?thesis using mode c by simp
    next
      case False
      then obtain c where "semver_clean s = Some c"
        "checking_cache_prev env r' t = checkCache_prev env (''v'' @ c) t"
        "checking_cache env r t = checkCache env \<lparr>versionString = c\<rparr> t"
        using ex c by blast
      then show ?thesis
        by (simp only: exact latest) (auto split: sum.splits)
    qed
  qed
  have 4: "new_RequestedVersion_prev s = Inr r' \<and> new_RequestedVersion s = Inr r
        \<and> s \<noteq> ''stable'' \<and> s \<noteq> ''latest'' \<longrightarrow>
        (\<exists>c. semver_clean s = Some c
           \<and> take (Suc (length t)) (snd (checking_cache_prev env r' t)) = t @ [Find toolName c]
           \<and> take (Suc (length t)) (snd (checking_cache env r t)) = t @ [Find toolName c])"
  proof (intro impI, elim conjE)
    assume c: "new_RequestedVersion_prev s = Inr r'" "new_RequestedVersion s = Inr r"
      and ns: "s \<noteq> ''stable''" "s \<noteq> ''latest''"
    obtain c where cc: "semver_clean s = Some c"
        "checking_cache_prev env r' t = checkCache_prev env (''v'' @ c) t"
        "checking_cache env r t = checkCache env \<lparr>versionString = c\<rparr> t"
      using ex [OF ns c] by blast
    have "take (Suc (length t)) (snd (checking_cache_prev env r' t)) = t @ [Find toolName c]"
      unfolding cc(2) exact [OF cc(1)] by (auto split: sum.splits)
    moreover have "take (Suc (length t)) (snd (checking_cache env r t)) = t @ [Find toolName c]"
      unfolding cc(3) latest by (auto split: sum.splits)
    ultimately show "\<exists>c. semver_clean s = Some c
           \<and> take (Suc (length t)) (snd (checking_cache_prev env r' t)) = t @ [Find toolName c]
           \<and> take (Suc (length t)) (snd (checking_cache env r t)) = t @ [Find toolName c]"
      using cc(1) by blast
  qed
  show ?thesis using 1 2 3 4 by blast
qed


theorem C10_cache_key_witness:
  "semver_clean ''v2.40.0'' = Some ''2.40.0'' \<and> semver_clean (''v'' @ ''2.40.0'') = Some ''2.40.0''
   \<and> new_RequestedVersion_prev ''v2.40.0''
       = Inr \<lparr>inputVersion_prev = ''v2.40.0'', semverVersion_prev = Some ''2.40.0''\<rparr>
   \<and> new_RequestedVersion ''v2.40.0''
       = Inr \<lparr>inputVersion = ''v2.40.0'', semverVersion = Some \<lparr>versionString = ''2.40.0''\<rparr>\<rparr>
   \<and> snd (checking_cache_prev example_env
         \<lparr>inputVersion_prev = ''v2.40.0'', semverVersion_prev = Some ''2.40.0''\<rparr> [])
       = [Find ''gh-cli'' ''2.40.0'']
   \<and> snd (checking_cache example_env
         \<lparr>inputVersion = ''v2.40.0'', semverVersion = Some \<lparr>versionString = ''2.40.0''\<rparr>\<rparr> [])
       = [Find ''gh-cli'' ''2.40.0'']"
proof -
  have a: "semver_clean ''v2.40.0'' = Some ''2.40.0''" by code_simp
  have b: "new_RequestedVersion_prev ''v2.40.0''
       = Inr \<lparr>inputVersion_prev = ''v2.40.0'', semverVersion_prev = Some ''2.40.0''\<rparr>"
    by code_simp
  have c: "new_RequestedVersion ''v2.40.0''
       = Inr \<lparr>inputVersion = ''v2.40.0'', semverVersion = Some \<lparr>versionString = ''2.40.0''\<rparr>\<rparr>"
    by code_simp
  have d: "snd (checking_cache example_env
         \<lparr>inputVersion = ''v2.40.0'', semverVersion = Some \<lparr>versionString = ''2.40.0''\<rparr>\<rparr> [])
       = [Find ''gh-cli'' ''2.40.0'']"
    by code_simp
  show ?thesis
    using C10_cache_key [of "''v2.40.0''" "''2.40.0''"
        "\<lparr>inputVersion_prev = ''v2.40.0'', semverVersion_prev = Some ''2.40.0''\<rparr>"
        "\<lparr>inputVersion = ''v2.40.0'', semverVersion = Some \<lparr>versionString = ''2.40.0''\<rparr>\<rparr>"
        example_env "[]"] a b c d
    by simp
qed

subsection \<open>Latest-mode resolution\<close>

lemma valid_releases_set:
  "r \<in> set (valid_releases data) \<longleftrightarrow>
   (\<exists>d \<in> set data. \<exists>c. semver_clean (tag_name d) = Some c
      \<and> r = \<lparr>release_version = \<lparr>versionString = c\<rparr>, assets = data_assets d\<rparr>)"
  by (induction data) (auto simp: cleanedVersion_eq split: option.splits)

lemma valid_releases_parsed:
  "r \<in> set (valid_releases data) \<Longrightarrow> new_SemVer (versionString (release_version r)) \<noteq> None"
proof -
  assume "r \<in> set (valid_releases data)"
  then obtain d :: release_data and c where "semver_clean (tag_name d) = Some c"
    "r = \<lparr>release_version = \<lparr>versionString = c\<rparr>, assets = data_assets d\<rparr>"
    unfolding valid_releases_set by blast
  then show ?thesis using semver_clean_valid [of "tag_name d" c] by auto
qed

lemma latest_first_sorted:
  assumes "valid_releases data \<noteq> []"
  shows "\<exists>first rest. Array_sort latest_first (valid_releases data) = Some (first # rest)
     \<and> first \<in> set (valid_releases data)
     \<and> (\<forall>r \<in> set (valid_releases data).
           \<exists>k. semver_compare (versionString (release_version r))
                  (versionString (release_version first)) = Some k \<and> k \<le> 0)"
proof -
  let ?S = "set (valid_releases data)"
  have sym: "\<forall>a \<in> ?S. \<forall>b \<in> ?S. \<exists>k. latest_first a b = Some k \<and> latest_first b a = Some (- k)"
    unfolding latest_first_def using semver_compare_sym valid_releases_parsed by blast
  have trans: "\<forall>a \<in> ?S. \<forall>b \<in> ?S. \<forall>c \<in> ?S. \<forall>k1 k2.
        latest_first a b = Some k1 \<and> k1 \<le> 0 \<and> latest_first b c = Some k2 \<and> k2 \<le> 0
        \<longrightarrow> (\<exists>k3. latest_first a c = Some k3 \<and> k3 \<le> 0)"
    unfolding latest_first_def
    using semver_compare_trans valid_releases_parsed by meson
  from Array_sort_first [of ?S latest_first "valid_releases data", OF sym trans]
  obtain ys where ys: "Array_sort latest_first (valid_releases data) = Some ys"
    "set ys = ?S"
    "\<forall>h t. ys = h # t \<longrightarrow> (\<forall>y \<in> set ys. \<exists>k. latest_first h y = Some k \<and> k \<le> 0)"
    by auto
  from assms ys(2) obtain first rest where fr: "ys = first # rest" by (cases ys) auto
  have "\<forall>y \<in> set ys. \<exists>k. latest_first first y = Some k \<and> k \<le> 0" using ys(3) fr by blast
  then have "\<forall>y \<in> ?S. \<exists>k. latest_first first y = Some k \<and> k \<le> 0" using ys(2) by simp
  moreover have "first \<in> ?S" using ys(2) fr by auto
  ultimately show ?thesis using ys(1) fr unfolding latest_first_def by auto
qed

lemma findMatchingRelease_latest:
  assumes "isLatest version" and "listReleases env t token ''cli'' ''cli'' 100 = Inr data"
  shows "findMatchingRelease env version token t =
     (if length (valid_releases data) \<le> 0 then Inl NoMatchingRelease
      else (case Array_sort latest_first (valid_releases data) of
              None \<Rightarrow> Inl TypeError
            | Some [] \<Rightarrow> Inl TypeError
            | Some (first # rest) \<Rightarrow> Inr first),
      t @ [ListReleases token ''cli'' ''cli'' 100])"
proof -
  have "\<not> isStable version"
    using assms(1) by (auto simp: isLatest_def isStable_def isLatest_static_def isStable_static_def)
  then show ?thesis
    using assms
    by (simp add: findMatchingRelease_def seq_def call_def throw_def return_run_def Let_def
          split: option.splits list.splits)
qed

text \<open>
  C1. In Latest mode the resolver asks for one page of 100 releases, keeps the entries
  whose tag normalizes to a semantic version and drops the others without failing,
  fails with \<open>NoMatchingRelease\<close> exactly when nothing is kept, and otherwise returns a
  kept release that no kept release exceeds in semantic-version precedence. On the tags
  v2.0.0, not-a-version, v1.9.9 and v2.0.0-rc1 it returns version 2.0.0.
\<close>

theorem C1_latest_resolution:
  "(isLatest version \<and> listReleases env t token ''cli'' ''cli'' 100 = Inr data \<longrightarrow>
      snd (findMatchingRelease env version token t) = t @ [ListReleases token ''cli'' ''cli'' 100]
      \<and> (\<forall>r. r \<in> set (valid_releases data) \<longleftrightarrow>
             (\<exists>d \<in> set data. \<exists>c. semver_clean (tag_name d) = Some c
                \<and> r = \<lparr>release_version = \<lparr>versionString = c\<rparr>, assets = data_assets d\<rparr>))
      \<and> (fst (findMatchingRelease env version token t) = Inl NoMatchingRelease
            \<longleftrightarrow> valid_releases data = [])
      \<and> (valid_releases data \<noteq> [] \<longrightarrow>
            (\<exists>first \<in> set (valid_releases data).
               fst (findMatchingRelease env version token t) = Inr first
               \<and> (\<forall>r \<in> set (valid_releases data).
                     \<exists>k. semver_compare (versionString (release_version r))
                            (versionString (release_version first)) = Some k \<and> k \<le> 0))))
   \<and> (isLatest version
        \<and> listReleases env t token ''cli'' ''cli'' 100
            = Inr [\<lparr>tag_name = ''v2.0.0'', data_assets = a1\<rparr>,
                   \<lparr>tag_name = ''not-a-version'', data_assets = a2\<rparr>,
                   \<lparr>tag_name = ''v1.9.9'', data_assets = a3\<rparr>,
                   \<lparr>tag_name = ''v2.0.0-rc1'', data_assets = a4\<rparr>] \<longrightarrow>
      fst (findMatchingRelease env version token t)
        = Inr \<lparr>release_version = \<lparr>versionString = ''2.0.0''\<rparr>, assets = a1\<rparr>)"
proof -
  have general: "isLatest version \<and> listReleases env t token ''cli'' ''cli'' 100 = Inr data \<longrightarrow>
      snd (findMatchingRelease env version token t) = t @ [ListReleases token ''cli'' ''cli'' 100]
      \<and> (\<forall>r. r \<in> set (valid_releases data) \<longleftrightarrow>
             (\<exists>d \<in> set data. \<exists>c. semver_clean (tag_name d) = Some c
                \<and> r = \<lparr>release_version = \<lparr>versionString = c\<rparr>, assets = data_assets d\<rparr>))
      \<and> (fst (findMatchingRelease env version token t) = Inl NoMatchingRelease
            \<longleftrightarrow> valid_releases data = [])
      \<and> (valid_releases data \<noteq> [] \<longrightarrow>
            (\<exists>first \<in> set (valid_releases data).
               fst (findMatchingRelease env version token t) = Inr first
               \<and> (\<forall>r \<in> set (valid_releases data).
                     \<exists>k. semver_compare (versionString (release_version r))
                            (versionString (release_version first)) = Some k \<and> k \<le> 0)))"
  proof (intro impI, elim conjE)
    assume l: "isLatest version" and d: "listReleases env t token ''cli'' ''cli'' 100 = Inr data"
    note eq = findMatchingRelease_latest [OF l d]
    have 1: "snd (findMatchingRelease env version token t)
        = t @ [ListReleases token ''cli'' ''cli'' 100]"
      by (simp add: eq)
    have 2: "\<forall>r. r \<in> set (valid_releases data) \<longleftrightarrow>
             (\<exists>d \<in> set data. \<exists>c. semver_clean (tag_name d) = Some c
                \<and> r = \<lparr>release_version = \<lparr>versionString = c\<rparr>, assets = data_assets d\<rparr>)"
      using valid_releases_set by blast
    have 3: "valid_releases data \<noteq> [] \<longrightarrow>
            (\<exists>first \<in> set (valid_releases data).
               fst (findMatchingRelease env version token t) = Inr first
               \<and> (\<forall>r \<in> set (valid_releases data).
                     \<exists>k. semver_compare (versionString (release_version r))
                            (versionString (release_version first)) = Some k \<and> k \<le> 0))"
    proof
      assume ne: "valid_releases data \<noteq> []"
      from latest_first_sorted [OF ne] obtain first rest where
        s: "Array_sort latest_first (valid_releases data) = Some (first # rest)"
        "first \<in> set (valid_releases data)"
        "\<forall>r \<in> set (valid_releases data).
           \<exists>k. semver_compare (versionString (release_version r))
                  (versionString (release_version first)) = Some k \<and> k \<le> 0"
        by blast
      have "fst (findMatchingRelease env version token t) = Inr first"
        using ne s(1) by (simp add: eq)
      then show "\<exists>first \<in> set (valid_releases data).
               fst (findMatchingRelease env version token t) = Inr first
               \<and> (\<forall>r \<in> set (valid_releases data).
                     \<exists>k. semver_compare (versionString (release_version r))
                            (versionString (release_version first)) = Some k \<and> k \<le> 0)"
        using s(2,3) by blast
    qed
    have 4: "fst (findMatchingRelease env version token t) = Inl NoMatchingRelease
            \<longleftrightarrow> valid_releases data = []"
    proof (cases "valid_releases data = []")
      case True
      then show ?thesis by (simp add: eq)
    next
      case False
      then show ?thesis using 3 by auto
    qed
    show "snd (findMatchingRelease env version token t) = t @ [ListReleases token ''cli'' ''cli'' 100]
      \<and> (\<forall>r. r \<in> set (valid_releases data) \<longleftrightarrow>
             (\<exists>d \<in> set data. \<exists>c. semver_clean (tag_name d) = Some c
                \<and> r = \<lparr>release_version = \<lparr>versionString = c\<rparr>, assets = data_assets d\<rparr>))
      \<and> (fst (findMatchingRelease env version token t) = Inl NoMatchingRelease
            \<longleftrightarrow> valid_releases data = [])
      \<and> (valid_releases data \<noteq> [] \<longrightarrow>
            (\<exists>first \<in> set (valid_releases data).
               fst (findMatchingRelease env version token t) = Inr first
               \<and> (\<forall>r \<in> set (valid_releases data).
                     \<exists>k. semver_compare (versionString (release_version r))
                            (versionString (release_version first)) = Some k \<and> k \<le> 0)))"
      using 1 2 3 4 by blast
  qed
  have c1: "semver_clean ''v2.0.0'' = Some ''2.0.0''" by code_simp
  have c2: "semver_clean ''not-a-version'' = None" by code_simp
  have c3: "semver_clean ''v1.9.9'' = Some ''1.9.9''" by code_simp
  have c4: "semver_clean ''v2.0.0-rc1'' = Some ''2.0.0-rc1''" by code_simp
  have o1: "semver_compare ''2.0.0-rc1'' ''1.9.9'' = Some 1" by code_simp
  have o2: "semver_compare ''2.0.0-rc1'' ''2.0.0'' = Some (- 1)" by code_simp
  have example: "isLatest version
        \<and> listReleases env t token ''cli'' ''cli'' 100
            = Inr [\<lparr>tag_name = ''v2.0.0'', data_assets = a1\<rparr>,
                   \<lparr>tag_name = ''not-a-version'', data_assets = a2\<rparr>,
                   \<lparr>tag_name = ''v1.9.9'', data_assets = a3\<rparr>,
                   \<lparr>tag_name = ''v2.0.0-rc1'', data_assets = a4\<rparr>] \<longrightarrow>
      fst (findMatchingRelease env version token t)
        = Inr \<lparr>release_version = \<lparr>versionString = ''2.0.0''\<rparr>, assets = a1\<rparr>"
  proof (intro impI, elim conjE)
    assume l: "isLatest version" and d: "listReleases env t token ''cli'' ''cli'' 100
            = Inr [\<lparr>tag_name = ''v2.0.0'', data_assets = a1\<rparr>,
                   \<lparr>tag_name = ''not-a-version'', data_assets = a2\<rparr>,
                   \<lparr>tag_name = ''v1.9.9'', data_assets = a3\<rparr>,
                   \<lparr>tag_name = ''v2.0.0-rc1'', data_assets = a4\<rparr>]"
    show "fst (findMatchingRelease env version token t)
        = Inr \<lparr>release_version = \<lparr>versionString = ''2.0.0''\<rparr>, assets = a1\<rparr>"
      unfolding findMatchingRelease_latest [OF l d]
      by (simp add: cleanedVersion_eq c1 c2 c3 c4 latest_first_def o1 o2)
  qed
  show ?thesis using general example by blast
qed

theorem C1_latest_resolution_witness:
  "isLatest \<lparr>inputVersion = ''latest'', semverVersion = None\<rparr>
   \<and> listReleases example_env [] None ''cli'' ''cli'' 100 = Inr example_releases
   \<and> findMatchingRelease example_env \<lparr>inputVersion = ''latest'', semverVersion = None\<rparr> None []
       = (Inr \<lparr>release_version = \<lparr>versionString = ''2.0.0''\<rparr>,
               assets = example_assets ''2.0.0''\<rparr>,
          [ListReleases None ''cli'' ''cli'' 100])
   \<and> map (\<lambda>r. versionString (release_version r)) (valid_releases example_releases)
       = [''2.0.0'', ''1.9.9'', ''2.0.0-rc1'']
   \<and> fst (findMatchingRelease
            (example_env\<lparr>listReleases := \<lambda>t token owner repo n.
               Inr [\<lparr>tag_name = ''nightly'', data_assets = []\<rparr>]\<rparr>)
            \<lparr>inputVersion = ''latest'', semverVersion = None\<rparr> None [])
       = Inl NoMatchingRelease"
proof -
  have a: "isLatest \<lparr>inputVersion = ''latest'', semverVersion = None\<rparr>" by code_simp
  have b: "listReleases example_env [] None ''cli'' ''cli'' 100 = Inr example_releases"
    by code_simp
  have c: "findMatchingRelease example_env \<lparr>inputVersion = ''latest'', semverVersion = None\<rparr> None []
       = (Inr \<lparr>release_version = \<lparr>versionString = ''2.0.0''\<rparr>,
               assets = example_assets ''2.0.0''\<rparr>,
          [ListReleases None ''cli'' ''cli'' 100])"
    by code_simp
  have d: "map (\<lambda>r. versionString (release_version r)) (valid_releases example_releases)
       = [''2.0.0'', ''1.9.9'', ''2.0.0-rc1'']" by code_simp
  have e: "fst (findMatchingRelease
            (example_env\<lparr>listReleases := \<lambda>t token owner repo n.
               Inr [\<lparr>tag_name = ''nightly'', data_assets = []\<rparr>]\<rparr>)
            \<lparr>inputVersion = ''latest'', semverVersion = None\<rparr> None [])
       = Inl NoMatchingRelease" by code_simp
  show ?thesis
    using C1_latest_resolution [of "\<lparr>inputVersion = ''latest'', semverVersion = None\<rparr>"
        example_env "[]" None example_releases] a b c d e
    by simp
qed

subsection \<open>Cache hits\<close>

lemma findMatchingRelease_emits:
  "emits_only (findMatchingRelease env version token) (\<lambda>e. e \<noteq> Info ''Found cached version.'')"
  unfolding findMatchingRelease_def Let_def
  by (auto intro!: emits_only_seq emits_only_call emits_only_lift emits_only_return_run
        emits_only_throw split: option.splits list.splits)

lemma resolve_directory_emits:
  "emits_only (resolve_directory env asset extension root)
     (\<lambda>e. e \<noteq> Info ''Found cached version.'')"
  unfolding emits_only_def resolve_directory_def Let_def
  by (auto simp: seq_def call_def effect_def throw_def return_run_def
        split: prod.splits sum.splits if_splits)

lemma install_emits:
  "emits_only (install env plat asset v) (\<lambda>e. e \<noteq> Info ''Found cached version.'')"
  unfolding install_def extract_archive_def
  by (auto intro!: emits_only_seq emits_only_call emits_only_lift emits_only_return_run
        emits_only_throw resolve_directory_emits)

lemma installing_release_emits:
  "emits_only (installing_release env plat release) (\<lambda>e. e \<noteq> Info ''Found cached version.'')"
  unfolding installing_release_def
  by (auto intro!: emits_only_seq emits_only_lift emits_only_throw install_emits
        split: option.splits)

lemma validate_input_emits:
  "emits_only (validate_input env) (\<lambda>e. e \<noteq> Info ''Found cached version.'')"
  unfolding validate_input_def
  by (auto intro!: emits_only_seq emits_only_call emits_only_lift emits_only_return_run
        emits_only_effect)

lemma setAndCheckOutput_emits:
  "emits_only (setAndCheckOutput env plat iv)
     (\<lambda>e. \<not> resolution_or_installation e \<and> e \<noteq> Info ''Found cached version.'')"
  unfolding setAndCheckOutput_def debug_installation_def check_installation_def
  by (auto intro!: emits_only_group emits_only_seq emits_only_call emits_only_effect
        emits_only_return_run emits_only_throw)

lemma checkCache_eq:
  "checkCache env v t =
     (case tools_find env t toolName (versionString v) of
        Inl msg \<Rightarrow> (Inl (External msg), t @ [Find toolName (versionString v)])
      | Inr cachedVersion \<Rightarrow>
          if cachedVersion \<noteq> []
          then (Inr (Some \<lparr>installed_version = v, installed_path = cachedVersion\<rparr>),
                t @ [Find toolName (versionString v), Info ''Found cached version.''])
          else (Inr None, t @ [Find toolName (versionString v)]))"
  by (simp add: checkCache_def seq_def call_def effect_def return_run_def split: sum.splits)

lemma checkCache_cases:
  "(\<exists>iv. checkCache env v t
           = (Inr (Some iv), t @ [Find toolName (versionString v), Info ''Found cached version.'']))
   \<or> (\<exists>r. checkCache env v t = (r, t @ [Find toolName (versionString v)])
          \<and> (r = Inr None \<or> (\<exists>e. r = Inl e)))"
  unfolding checkCache_eq by (auto split: sum.splits)

lemma checking_cache_cases:
  "(\<exists>iv v. checking_cache env version t
           = (Inr (Some iv), t @ [Find toolName v, Info ''Found cached version.'']))
   \<or> (\<exists>r es. checking_cache env version t = (r, t @ es)
          \<and> list_all (\<lambda>e. e \<noteq> Info ''Found cached version.'') es
          \<and> (r = Inr None \<or> (\<exists>e. r = Inl e)))"
proof (cases "\<not> isStable version \<and> \<not> isLatest version")
  case False
  then have "checking_cache env version t = (Inr None, t @ [])"
    by (auto simp: checking_cache_def return_run_def)
  then show ?thesis
    by (intro disjI2 exI [of _ "Inr None"] exI [of _ "[]"]) simp
next
  case True
  show ?thesis
  proof (cases "get_cleanedVersion version")
    case (Inl e)
    then have "checking_cache env version t = (Inl e, t @ [])"
      using True by (simp add: checking_cache_def seq_def lift_def)
    then show ?thesis
      by (intro disjI2 exI [of _ "Inl e"] exI [of _ "[]"]) simp
  next
    case (Inr v)
    then have eq: "checking_cache env version t = checkCache env v t"
      using True by (simp add: checking_cache_def seq_def lift_def)
    from checkCache_cases [of env v t] show ?thesis
    proof
      assume "\<exists>iv. checkCache env v t
           = (Inr (Some iv), t @ [Find toolName (versionString v), Info ''Found cached version.''])"
      then show ?thesis using eq by auto
    next
      assume "\<exists>r. checkCache env v t = (r, t @ [Find toolName (versionString v)])
          \<and> (r = Inr None \<or> (\<exists>e. r = Inl e))"
      then obtain r where "checking_cache env version t = (r, t @ [Find toolName (versionString v)])"
        "r = Inr None \<or> (\<exists>e. r = Inl e)" using eq by auto
      moreover have "list_all (\<lambda>e. e \<noteq> Info ''Found cached version.'') [Find toolName (versionString v)]"
        by simp
      ultimately show ?thesis by blast
    qed
  qed
qed

lemma fetching_release_cases:
  "(\<exists>release iv es. fetching_release env version ghToken t
           = (Inr (release, Some iv), t @ es @ [Info ''Found cached version.''])
        \<and> list_all (\<lambda>e. e \<noteq> Info ''Found cached version.'') es)
   \<or> (\<exists>r es. fetching_release env version ghToken t = (r, t @ es)
          \<and> list_all (\<lambda>e. e \<noteq> Info ''Found cached version.'') es
          \<and> ((\<exists>release. r = Inr (release, None)) \<or> (\<exists>e. r = Inl e)))"
proof -
  obtain es where es: "snd (findMatchingRelease env version ghToken t) = t @ es"
    "list_all (\<lambda>e. e \<noteq> Info ''Found cached version.'') es"
    using emits_only_D [OF findMatchingRelease_emits] by blast
  show ?thesis
  proof (cases "fst (findMatchingRelease env version ghToken t)")
    case (Inl e)
    then have "fetching_release env version ghToken t = (Inl e, t @ es)"
      using es(1) by (cases "findMatchingRelease env version ghToken t")
                     (simp add: fetching_release_def seq_def)
    then show ?thesis using es(2) by blast
  next
    case (Inr release)
    then have eq: "fetching_release env version ghToken t =
        (case checkCache env (release_version release) (t @ es) of
           (Inl e, t') \<Rightarrow> (Inl e, t')
         | (Inr iv, t') \<Rightarrow> (Inr (release, iv), t'))"
      using es(1) by (cases "findMatchingRelease env version ghToken t")
                     (auto simp: fetching_release_def seq_def return_run_def
                        split: prod.splits sum.splits)
    let ?f = "Find toolName (versionString (release_version release))"
    from checkCache_cases [of env "release_version release" "t @ es"] show ?thesis
    proof
      assume "\<exists>iv. checkCache env (release_version release) (t @ es)
           = (Inr (Some iv), (t @ es) @ [?f, Info ''Found cached version.''])"
      then obtain iv where "fetching_release env version ghToken t
          = (Inr (release, Some iv), t @ (es @ [?f]) @ [Info ''Found cached version.''])"
        using eq by auto
      moreover have "list_all (\<lambda>e. e \<noteq> Info ''Found cached version.'') (es @ [?f])"
        using es(2) by simp
      ultimately show ?thesis by blast
    next
      assume "\<exists>r. checkCache env (release_version release) (t @ es) = (r, (t @ es) @ [?f])
          \<and> (r = Inr None \<or> (\<exists>e. r = Inl e))"
      then obtain r where r: "checkCache env (release_version release) (t @ es) = (r, t @ (es @ [?f]))"
        "r = Inr None \<or> (\<exists>e. r = Inl e)" by auto
      have l: "list_all (\<lambda>e. e \<noteq> Info ''Found cached version.'') (es @ [?f])"
        using es(2) by simp
      from r(2) show ?thesis
      proof
        assume "r = Inr None"
        then have "fetching_release env version ghToken t = (Inr (release, None), t @ (es @ [?f]))"
          using eq r(1) by simp
        then show ?thesis using l by blast
      next
        assume "\<exists>e. r = Inl e"
        then obtain e where "fetching_release env version ghToken t = (Inl e, t @ (es @ [?f]))"
          using eq r(1) by auto
        then show ?thesis using l by blast
      qed
    qed
  qed
qed

lemma quiet_after_hit_append:
  "list_all (\<lambda>e. e \<noteq> Info ''Found cached version.'') es \<Longrightarrow>
   quiet_after_hit (es @ fs) = quiet_after_hit fs"
  by (induction es) auto

lemma quiet_after_hit_no_hit:
  "list_all (\<lambda>e. e \<noteq> Info ''Found cached version.'') es \<Longrightarrow> quiet_after_hit es"
  using quiet_after_hit_append [of es "[]"] by simp

lemma main_steps_hit:
  assumes "checking_cache env version (t @ [StartGroup ''Checking cache'']) = (Inr (Some iv), t')"
  shows "main_steps env plat version ghToken t = setAndCheckOutput env plat iv (t' @ [EndGroup])"
  using group_eq [where m = "checking_cache env version", OF assms]
  by (simp add: main_steps_def seq_def)

lemma install_after_miss_emits:
  "emits_only (seq (group ''Installing release'' (installing_release env plat release))
                 (\<lambda>installedVersion. setAndCheckOutput env plat installedVersion))
     (\<lambda>e. e \<noteq> Info ''Found cached version.'')"
  by (auto intro!: emits_only_seq emits_only_group installing_release_emits
        emits_only_mono [OF setAndCheckOutput_emits])

lemma main_steps_quiet:
  "\<exists>es. snd (main_steps env plat version ghToken t) = t @ es \<and> quiet_after_hit es"
proof -
  let ?H = "Info ''Found cached version.''"
  let ?t1 = "t @ [StartGroup ''Checking cache'']"
  from checking_cache_cases [of env version ?t1] show ?thesis
  proof
    assume "\<exists>iv v. checking_cache env version ?t1 = (Inr (Some iv), ?t1 @ [Find toolName v, ?H])"
    then obtain iv v where
      cc: "checking_cache env version ?t1 = (Inr (Some iv), ?t1 @ [Find toolName v, ?H])" by blast
    obtain fs where fs: "snd (setAndCheckOutput env plat iv ((?t1 @ [Find toolName v, ?H]) @ [EndGroup]))
        = ((?t1 @ [Find toolName v, ?H]) @ [EndGroup]) @ fs"
      "list_all (\<lambda>e. \<not> resolution_or_installation e \<and> e \<noteq> ?H) fs"
      using emits_only_D [OF setAndCheckOutput_emits] by blast
    have "list_all (\<lambda>e. \<not> resolution_or_installation e) fs"
      using fs(2) by (simp add: list_all_iff)
    then have "quiet_after_hit ([StartGroup ''Checking cache'', Find toolName v, ?H, EndGroup] @ fs)"
      by simp
    moreover have "snd (main_steps env plat version ghToken t)
        = t @ [StartGroup ''Checking cache'', Find toolName v, ?H, EndGroup] @ fs"
      using fs(1) by (simp add: main_steps_hit [OF cc])
    ultimately show ?thesis by blast
  next
    assume "\<exists>r es. checking_cache env version ?t1 = (r, ?t1 @ es)
          \<and> list_all (\<lambda>e. e \<noteq> ?H) es \<and> (r = Inr None \<or> (\<exists>e. r = Inl e))"
    then obtain r es where cc: "checking_cache env version ?t1 = (r, ?t1 @ es)"
      and es: "list_all (\<lambda>e. e \<noteq> ?H) es" and r: "r = Inr None \<or> (\<exists>e. r = Inl e)" by blast
    let ?t2 = "(?t1 @ es) @ [EndGroup]"
    have pre: "list_all (\<lambda>e. e \<noteq> ?H) (StartGroup ''Checking cache'' # es @ [EndGroup])"
      using es by simp
    from r show ?thesis
    proof
      assume "\<exists>e. r = Inl e"
      then obtain e where "r = Inl e" by blast
      then have "main_steps env plat version ghToken t = (Inl e, ?t2)"
        using group_eq [where m = "checking_cache env version", OF cc [unfolded \<open>r = Inl e\<close>]]
        by (simp add: main_steps_def seq_def)
      then have "snd (main_steps env plat version ghToken t)
          = t @ (StartGroup ''Checking cache'' # es @ [EndGroup])" by simp
      then show ?thesis using quiet_after_hit_no_hit [OF pre] by blast
    next
      assume none: "r = Inr None"
      let ?t3 = "?t2 @ [StartGroup ''Fetching release'']"
      have step: "main_steps env plat version ghToken t =
          seq (group ''Fetching release'' (fetching_release env version ghToken))
            (\<lambda>(release, installedVersion).
              (case installedVersion of
                 Some installed \<Rightarrow> setAndCheckOutput env plat installed
               | None \<Rightarrow>
                   seq (group ''Installing release'' (installing_release env plat release))
                     (\<lambda>installedVersion. setAndCheckOutput env plat installedVersion))) ?t2"
        using group_eq [where m = "checking_cache env version", OF cc [unfolded none]]
        by (simp add: main_steps_def seq_def [of "group ''Checking cache'' (checking_cache env version)"])
      from fetching_release_cases [of env version ghToken ?t3] show ?thesis
      proof
        assume "\<exists>release iv fs. fetching_release env version ghToken ?t3
             = (Inr (release, Some iv), ?t3 @ fs @ [?H]) \<and> list_all (\<lambda>e. e \<noteq> ?H) fs"
        then obtain release iv fs where
          fr: "fetching_release env version ghToken ?t3 = (Inr (release, Some iv), ?t3 @ fs @ [?H])"
          and fs: "list_all (\<lambda>e. e \<noteq> ?H) fs" by blast
        let ?t4 = "(?t3 @ fs @ [?H]) @ [EndGroup]"
        have m: "main_steps env plat version ghToken t = setAndCheckOutput env plat iv ?t4"
          unfolding step
          using group_eq [where m = "fetching_release env version ghToken", OF fr]
          by (simp add: seq_def [of "group ''Fetching release'' (fetching_release env version ghToken)"])
        obtain gs where gs: "snd (setAndCheckOutput env plat iv ?t4) = ?t4 @ gs"
          "list_all (\<lambda>e. \<not> resolution_or_installation e \<and> e \<noteq> ?H) gs"
          using emits_only_D [OF setAndCheckOutput_emits] by blast
        have q: "list_all (\<lambda>e. \<not> resolution_or_installation e) gs"
          using gs(2) by (simp add: list_all_iff)
        let ?pre = "StartGroup ''Checking cache'' # es @ [EndGroup, StartGroup ''Fetching release''] @ fs"
        have "list_all (\<lambda>e. e \<noteq> ?H) ?pre" using es fs by simp
        then have "quiet_after_hit (?pre @ (?H # EndGroup # gs))
            = quiet_after_hit (?H # EndGroup # gs)"
          by (rule quiet_after_hit_append)
        then have "quiet_after_hit (?pre @ (?H # EndGroup # gs))" using q by simp
        moreover have "snd (main_steps env plat version ghToken t) = t @ (?pre @ (?H # EndGroup # gs))"
          using gs(1) by (simp add: m)
        ultimately show ?thesis by blast
      next
        assume "\<exists>r es. fetching_release env version ghToken ?t3 = (r, ?t3 @ es)
          \<and> list_all (\<lambda>e. e \<noteq> ?H) es
          \<and> ((\<exists>release. r = Inr (release, None)) \<or> (\<exists>e. r = Inl e))"
        then obtain r' fs where fr: "fetching_release env version ghToken ?t3 = (r', ?t3 @ fs)"
          and fs: "list_all (\<lambda>e. e \<noteq> ?H) fs"
          and r': "(\<exists>release. r' = Inr (release, None)) \<or> (\<exists>e. r' = Inl e)" by blast
        let ?t4 = "(?t3 @ fs) @ [EndGroup]"
        let ?pre = "StartGroup ''Checking cache'' # es @ [EndGroup, StartGroup ''Fetching release''] @ fs @ [EndGroup]"
        have pre': "list_all (\<lambda>e. e \<noteq> ?H) ?pre" using es fs by simp
        from r' show ?thesis
        proof
          assume "\<exists>e. r' = Inl e"
          then obtain e where e: "r' = Inl e" by blast
          have "main_steps env plat version ghToken t = (Inl e, ?t4)"
            unfolding step
            using group_eq [where m = "fetching_release env version ghToken", OF fr [unfolded e]]
            by (simp add: seq_def [of "group ''Fetching release'' (fetching_release env version ghToken)"])
          then have "snd (main_steps env plat version ghToken t) = t @ ?pre" by simp
          then show ?thesis using quiet_after_hit_no_hit [OF pre'] by blast
        next
          assume "\<exists>release. r' = Inr (release, None)"
          then obtain release where rel: "r' = Inr (release, None)" by blast
          have m: "main_steps env plat version ghToken t =
              seq (group ''Installing release'' (installing_release env plat release))
                 (\<lambda>installedVersion. setAndCheckOutput env plat installedVersion) ?t4"
            unfolding step
            using group_eq [where m = "fetching_release env version ghToken", OF fr [unfolded rel]]
            by (simp add: seq_def [of "group ''Fetching release'' (fetching_release env version ghToken)"])
          obtain gs where gs: "snd (seq (group ''Installing release'' (installing_release env plat release))
                 (\<lambda>installedVersion. setAndCheckOutput env plat installedVersion) ?t4) = ?t4 @ gs"
            "list_all (\<lambda>e. e \<noteq> ?H) gs"
            using emits_only_D [OF install_after_miss_emits] by blast
          have "list_all (\<lambda>e. e \<noteq> ?H) (?pre @ gs)" using pre' gs(2) by simp
          then have "quiet_after_hit (?pre @ gs)" by (rule quiet_after_hit_no_hit)
          moreover have "snd (main_steps env plat version ghToken t) = t @ (?pre @ gs)"
            using gs(1) by (simp add: m)
          ultimately show ?thesis by blast
        qed
      qed
    qed
  qed
qed

lemma main_quiet: "\<exists>es. snd (main env plat t) = t @ es \<and> quiet_after_hit es"
proof -
  let ?H = "Info ''Found cached version.''"
  obtain es where es: "snd (validate_input env t) = t @ es" "list_all (\<lambda>e. e \<noteq> ?H) es"
    using emits_only_D [OF validate_input_emits] by blast
  show ?thesis
  proof (cases "fst (validate_input env t)")
    case (Inl e)
    then have "validate_input env t = (Inl e, t @ es)"
      using es(1) by (cases "validate_input env t") simp
    then have "snd (main env plat t) = t @ es" by (simp add: main_def seq_def)
    then show ?thesis using quiet_after_hit_no_hit [OF es(2)] by blast
  next
    case (Inr x)
    obtain version ghToken where x: "x = (version, ghToken)" by (cases x)
    have "validate_input env t = (Inr (version, ghToken), t @ es)"
      using es(1) Inr x by (cases "validate_input env t") simp
    then have m: "main env plat t = main_steps env plat version ghToken (t @ es)"
      by (simp add: main_def seq_def)
    obtain fs where fs: "snd (main_steps env plat version ghToken (t @ es)) = (t @ es) @ fs"
      "quiet_after_hit fs" using main_steps_quiet by blast
    have "quiet_after_hit (es @ fs)" using quiet_after_hit_append [OF es(2)] fs(2) by simp
    moreover have "snd (main env plat t) = t @ (es @ fs)" using m fs(1) by simp
    ultimately show ?thesis by blast
  qed
qed

lemma main_eq:
  "main env plat t =
     (case validate_input env t of
        (Inl e, t') \<Rightarrow> (Inl e, t')
      | (Inr (version, ghToken), t') \<Rightarrow> main_steps env plat version ghToken t')"
  by (simp add: main_def seq_def split: prod.splits sum.splits)

lemma main_steps_eq:
  "main_steps env plat version ghToken t =
     (case checking_cache env version (t @ [StartGroup ''Checking cache'']) of
        (Inl e, t') \<Rightarrow> (Inl e, t' @ [EndGroup])
      | (Inr (Some installed), t') \<Rightarrow> setAndCheckOutput env plat installed (t' @ [EndGroup])
      | (Inr None, t') \<Rightarrow>
          (case fetching_release env version ghToken
                  (t' @ [EndGroup, StartGroup ''Fetching release'']) of
             (Inl e, t'') \<Rightarrow> (Inl e, t'' @ [EndGroup])
           | (Inr (release, Some installed), t'') \<Rightarrow>
               setAndCheckOutput env plat installed (t'' @ [EndGroup])
           | (Inr (release, None), t'') \<Rightarrow>
               (case installing_release env plat release
                       (t'' @ [EndGroup, StartGroup ''Installing release'']) of
                  (Inl e, t''') \<Rightarrow> (Inl e, t''' @ [EndGroup])
                | (Inr installed, t''') \<Rightarrow>
                    setAndCheckOutput env plat installed (t''' @ [EndGroup]))))"
  by (simp add: main_steps_def group_def seq_def
        split: prod.splits sum.splits option.splits)

lemma fetching_release_eq:
  "fetching_release env version ghToken t =
     (case findMatchingRelease env version ghToken t of
        (Inl e, t') \<Rightarrow> (Inl e, t')
      | (Inr release, t') \<Rightarrow>
          (case checkCache env (release_version release) t' of
             (Inl e, t'') \<Rightarrow> (Inl e, t'')
           | (Inr installed, t'') \<Rightarrow> (Inr (release, installed), t'')))"
  by (simp add: fetching_release_def seq_def return_run_def split: prod.splits sum.splits)

lemma findMatchingRelease_registry:
  "(isStable version \<longrightarrow>
      snd (findMatchingRelease env version ghToken t)
        = t @ [GetLatestRelease ghToken ''cli'' ''cli''])
   \<and> (isLatest version \<longrightarrow>
      snd (findMatchingRelease env version ghToken t)
        = t @ [ListReleases ghToken ''cli'' ''cli'' 100])"
  by (auto simp: findMatchingRelease_def isStable_def isLatest_def isStable_static_def
        isLatest_static_def seq_def call_def lift_def
        return_run_def throw_def Let_def split: sum.splits option.splits list.splits)

lemma checkCache_extends: "\<exists>es. snd (checkCache env v t) = t @ es"
  unfolding checkCache_eq by (auto split: sum.splits)

lemma fetching_release_extends:
  "\<exists>es. snd (fetching_release env version ghToken t)
          = snd (findMatchingRelease env version ghToken t) @ es"
proof (cases "findMatchingRelease env version ghToken t")
  case (Pair r t')
  show ?thesis
  proof (cases r)
    case (Inl e)
    then show ?thesis using Pair by (simp add: fetching_release_eq)
  next
    case (Inr release)
    obtain es where "snd (checkCache env (release_version release) t') = t' @ es"
      using checkCache_extends by blast
    then show ?thesis using Pair Inr
      by (cases "checkCache env (release_version release) t'")
         (auto simp: fetching_release_eq split: sum.splits)
  qed
qed

lemma setAndCheckOutput_extends: "\<exists>es. snd (setAndCheckOutput env plat iv t) = t @ es"
  using emits_only_D [OF setAndCheckOutput_emits] by blast

lemma installing_release_extends: "\<exists>es. snd (installing_release env plat release t) = t @ es"
  using emits_only_D [OF installing_release_emits] by blast

lemma main_steps_after_miss:
  assumes cc: "checking_cache env version (t @ [StartGroup ''Checking cache'']) = (Inr None, t')"
  shows "\<exists>es. snd (main_steps env plat version ghToken t)
           = snd (fetching_release env version ghToken
                    (t' @ [EndGroup, StartGroup ''Fetching release''])) @ es"
proof (cases "fetching_release env version ghToken
                (t' @ [EndGroup, StartGroup ''Fetching release''])")
  case (Pair r t'')
  show ?thesis
  proof (cases r)
    case (Inl e)
    then show ?thesis using cc Pair by (simp add: main_steps_eq)
  next
    case (Inr p)
    obtain release oiv where p: "p = (release, oiv)" by (cases p)
    show ?thesis
    proof (cases oiv)
      case (Some installed)
      obtain es where "snd (setAndCheckOutput env plat installed (t'' @ [EndGroup]))
          = (t'' @ [EndGroup]) @ es"
        using setAndCheckOutput_extends by blast
      then show ?thesis using cc Pair Inr p Some by (simp add: main_steps_eq)
    next
      case None
      obtain r3 t3 where i: "installing_release env plat release
          (t'' @ [EndGroup, StartGroup ''Installing release'']) = (r3, t3)"
        by (cases "installing_release env plat release
          (t'' @ [EndGroup, StartGroup ''Installing release''])")
      obtain es3 where es3: "t3 = (t'' @ [EndGroup, StartGroup ''Installing release'']) @ es3"
        using installing_release_extends [of env plat release
            "t'' @ [EndGroup, StartGroup ''Installing release'']"] i by auto
      show ?thesis
      proof (cases r3)
        case (Inl e)
        then show ?thesis using cc Pair Inr p None i es3 by (simp add: main_steps_eq)
      next
        case (Inr installed)
        obtain es where "snd (setAndCheckOutput env plat installed (t3 @ [EndGroup]))
            = (t3 @ [EndGroup]) @ es"
          using setAndCheckOutput_extends by blast
        then show ?thesis using cc Pair \<open>r = Inr p\<close> p None i es3 Inr
          by (simp add: main_steps_eq)
      qed
    qed
  qed
qed

lemma main_steps_registry:
  assumes "isStable version \<or> isLatest version"
  shows "take 4 (drop (length t) (snd (main_steps env plat version ghToken t)))
       = [StartGroup ''Checking cache'', EndGroup, StartGroup ''Fetching release'',
          if isStable version then GetLatestRelease ghToken ''cli'' ''cli''
          else ListReleases ghToken ''cli'' ''cli'' 100]"
proof -
  let ?e = "if isStable version then GetLatestRelease ghToken ''cli'' ''cli''
          else ListReleases ghToken ''cli'' ''cli'' 100"
  let ?t1 = "t @ [StartGroup ''Checking cache'']"
  let ?t2 = "?t1 @ [EndGroup, StartGroup ''Fetching release'']"
  have cc: "checking_cache env version ?t1 = (Inr None, ?t1)"
    using assms by (auto simp: checking_cache_def return_run_def)
  have f: "snd (findMatchingRelease env version ghToken ?t2) = ?t2 @ [?e]"
    using assms findMatchingRelease_registry [of version env ghToken ?t2] by auto
  obtain es where es: "snd (fetching_release env version ghToken ?t2)
      = snd (findMatchingRelease env version ghToken ?t2) @ es"
    using fetching_release_extends by blast
  obtain fs where fs: "snd (main_steps env plat version ghToken t)
      = snd (fetching_release env version ghToken ?t2) @ fs"
    using main_steps_after_miss [OF cc] by blast
  have "snd (main_steps env plat version ghToken t)
      = t @ [StartGroup ''Checking cache'', EndGroup, StartGroup ''Fetching release'', ?e]
          @ es @ fs"
    unfolding fs es f by simp
  then show ?thesis by simp
qed

text \<open>
  C7. The cache check before release resolution is made only in Exact mode: for Stable
  and Latest the first group returns nothing and calls no collaborator. A cache hit is
  followed by the message of \<open>checkCache\<close>; when the first check hits, the rest of the
  run is \<open>setAndCheckOutput\<close> and the run calls neither the registry nor download,
  extraction or cache registration; and in every run of \<open>main\<close>, no such call comes
  after the message of a cache hit. The remaining parts give every run of \<open>main\<close>:
  it is the validation of the input followed by the three groups; after a miss of the
  first check the run enters the group \<open>Fetching release\<close>, which resolves the release
  and checks the cache for it, and after a second miss the group \<open>Installing release\<close>.
  For Stable the resolution calls \<open>getLatestRelease\<close>, for Latest \<open>listReleases\<close> with a
  page of 100, and in both modes every run of the three groups starts with the empty
  group \<open>Checking cache\<close>, the start of \<open>Fetching release\<close> and that call of the registry.
\<close>

theorem C7_cache_short_circuit:
  "(isStable version \<or> isLatest version \<longrightarrow> checking_cache env version t = (Inr None, t))
   \<and> (\<not> isStable version \<and> \<not> isLatest version \<and> semverVersion version = Some v \<longrightarrow>
        checking_cache env version t = checkCache env v t)
   \<and> ((\<exists>iv. fst (checkCache env v t) = Inr (Some iv)) \<longleftrightarrow>
        snd (checkCache env v t)
          = t @ [Find toolName (versionString v), Info ''Found cached version.''])
   \<and> (fst (checking_cache env version (t @ [StartGroup ''Checking cache''])) = Inr (Some iv) \<longrightarrow>
        main_steps env plat version ghToken t
          = setAndCheckOutput env plat iv
              (snd (checking_cache env version (t @ [StartGroup ''Checking cache'']))
                 @ [EndGroup])
        \<and> list_all (\<lambda>e. \<not> resolution_or_installation e)
             (drop (length t) (snd (main_steps env plat version ghToken t))))
   \<and> quiet_after_hit (drop (length t) (snd (main env plat t)))
   \<and> main env plat t =
       (case validate_input env t of
          (Inl e, t') \<Rightarrow> (Inl e, t')
        | (Inr (version, ghToken), t') \<Rightarrow> main_steps env plat version ghToken t')
   \<and> main_steps env plat version ghToken t =
       (case checking_cache env version (t @ [StartGroup ''Checking cache'']) of
          (Inl e, t') \<Rightarrow> (Inl e, t' @ [EndGroup])
        | (Inr (Some installed), t') \<Rightarrow> setAndCheckOutput env plat installed (t' @ [EndGroup])
        | (Inr None, t') \<Rightarrow>
            (case fetching_release env version ghToken
                    (t' @ [EndGroup, StartGroup ''Fetching release'']) of
               (Inl e, t'') \<Rightarrow> (Inl e, t'' @ [EndGroup])
             | (Inr (release, Some installed), t'') \<Rightarrow>
                 setAndCheckOutput env plat installed (t'' @ [EndGroup])
             | (Inr (release, None), t'') \<Rightarrow>
                 (case installing_release env plat release
                         (t'' @ [EndGroup, StartGroup ''Installing release'']) of
                    (Inl e, t''') \<Rightarrow> (Inl e, t''' @ [EndGroup])
                  | (Inr installed, t''') \<Rightarrow>
                      setAndCheckOutput env plat installed (t''' @ [EndGroup]))))
   \<and> fetching_release env version ghToken t =
       (case findMatchingRelease env version ghToken t of
          (Inl e, t') \<Rightarrow> (Inl e, t')
        | (Inr release, t') \<Rightarrow>
            (case checkCache env (release_version release) t' of
               (Inl e, t'') \<Rightarrow> (Inl e, t'')
             | (Inr installed, t'') \<Rightarrow> (Inr (release, installed), t'')))
   \<and> (isStable version \<longrightarrow>
        snd (findMatchingRelease env version ghToken t)
          = t @ [GetLatestRelease ghToken ''cli'' ''cli''])
   \<and> (isLatest version \<longrightarrow>
        snd (findMatchingRelease env version ghToken t)
          = t @ [ListReleases ghToken ''cli'' ''cli'' 100])
   \<and> (isStable version \<or> isLatest version \<longrightarrow>
        take 4 (drop (length t) (snd (main_steps env plat version ghToken t)))
          = [StartGroup ''Checking cache'', EndGroup, StartGroup ''Fetching release'',
             if isStable version then GetLatestRelease ghToken ''cli'' ''cli''
             else ListReleases ghToken ''cli'' ''cli'' 100])"
proof -
  let ?H = "Info ''Found cached version.''"
  let ?t1 = "t @ [StartGroup ''Checking cache'']"
  have 1: "isStable version \<or> isLatest version \<longrightarrow> checking_cache env version t = (Inr None, t)"
    by (auto simp: checking_cache_def return_run_def)
  have 2: "\<not> isStable version \<and> \<not> isLatest version \<and> semverVersion version = Some v \<longrightarrow>
        checking_cache env version t = checkCache env v t"
    by (simp add: checking_cache_def get_cleanedVersion_def seq_def lift_def)
  have 3: "(\<exists>iv. fst (checkCache env v t) = Inr (Some iv)) \<longleftrightarrow>
        snd (checkCache env v t) = t @ [Find toolName (versionString v), ?H]"
    unfolding checkCache_eq by (auto split: sum.splits)
  have 4: "fst (checking_cache env version ?t1) = Inr (Some iv) \<longrightarrow>
        main_steps env plat version ghToken t
          = setAndCheckOutput env plat iv (snd (checking_cache env version ?t1) @ [EndGroup])
        \<and> list_all (\<lambda>e. \<not> resolution_or_installation e)
             (drop (length t) (snd (main_steps env plat version ghToken t)))"
  proof
    assume hit: "fst (checking_cache env version ?t1) = Inr (Some iv)"
    from checking_cache_cases [of env version ?t1] hit obtain c where
      cc: "checking_cache env version ?t1 = (Inr (Some iv), ?t1 @ [Find toolName c, ?H])"
      by auto
    have m: "main_steps env plat version ghToken t
        = setAndCheckOutput env plat iv ((?t1 @ [Find toolName c, ?H]) @ [EndGroup])"
      by (rule main_steps_hit [OF cc])
    obtain fs where fs: "snd (setAndCheckOutput env plat iv ((?t1 @ [Find toolName c, ?H]) @ [EndGroup]))
        = ((?t1 @ [Find toolName c, ?H]) @ [EndGroup]) @ fs"
      "list_all (\<lambda>e. \<not> resolution_or_installation e \<and> e \<noteq> ?H) fs"
      using emits_only_D [OF setAndCheckOutput_emits] by blast
    have "list_all (\<lambda>e. \<not> resolution_or_installation e) fs"
      using fs(2) by (simp add: list_all_iff)
    moreover have "snd (main_steps env plat version ghToken t)
        = t @ ([StartGroup ''Checking cache'', Find toolName c, ?H, EndGroup] @ fs)"
      using fs(1) by (simp add: m)
    ultimately have "list_all (\<lambda>e. \<not> resolution_or_installation e)
             (drop (length t) (snd (main_steps env plat version ghToken t)))"
      by simp
    then show "main_steps env plat version ghToken t
          = setAndCheckOutput env plat iv (snd (checking_cache env version ?t1) @ [EndGroup])
        \<and> list_all (\<lambda>e. \<not> resolution_or_installation e)
             (drop (length t) (snd (main_steps env plat version ghToken t)))"
      using m cc by simp
  qed
  have 5: "quiet_after_hit (drop (length t) (snd (main env plat t)))"
    using main_quiet [of env plat t] by auto
  have 9: "isStable version \<longrightarrow>
        snd (findMatchingRelease env version ghToken t)
          = t @ [GetLatestRelease ghToken ''cli'' ''cli'']"
    using findMatchingRelease_registry [of version env ghToken t] by blast
  have 10: "isLatest version \<longrightarrow>
        snd (findMatchingRelease env version ghToken t)
          = t @ [ListReleases ghToken ''cli'' ''cli'' 100]"
    using findMatchingRelease_registry [of version env ghToken t] by blast
  have 11: "isStable version \<or> isLatest version \<longrightarrow>
        take 4 (drop (length t) (snd (main_steps env plat version ghToken t)))
          = [StartGroup ''Checking cache'', EndGroup, StartGroup ''Fetching release'',
             if isStable version then GetLatestRelease ghToken ''cli'' ''cli''
             else ListReleases ghToken ''cli'' ''cli'' 100]"
    using main_steps_registry [of version t env plat ghToken] by blast
  show ?thesis
    by (rule conjI [OF 1 conjI [OF 2 conjI [OF 3 conjI [OF 4 conjI [OF 5
          conjI [OF main_eq conjI [OF main_steps_eq conjI [OF fetching_release_eq
          conjI [OF 9 conjI [OF 10 11]]]]]]]]]])
qed

theorem C7_cache_short_circuit_witness:
  "isStable \<lparr>inputVersion = ''stable'', semverVersion = None\<rparr>
   \<and> checking_cache example_env \<lparr>inputVersion = ''stable'', semverVersion = None\<rparr> []
       = (Inr None, [])
   \<and> fst (checking_cache (example_env\<lparr>tools_find := \<lambda>t tool v. Inr ''/cache/gh''\<rparr>)
        \<lparr>inputVersion = ''v2.40.0'', semverVersion = Some \<lparr>versionString = ''2.40.0''\<rparr>\<rparr>
        [StartGroup ''Checking cache''])
       = Inr (Some \<lparr>installed_version = \<lparr>versionString = ''2.40.0''\<rparr>,
                     installed_path = ''/cache/gh''\<rparr>)
   \<and> main_steps (example_env\<lparr>tools_find := \<lambda>t tool v. Inr ''/cache/gh''\<rparr>) Linux
        \<lparr>inputVersion = ''v2.40.0'', semverVersion = Some \<lparr>versionString = ''2.40.0''\<rparr>\<rparr> None []
       = (Inr (),
          [StartGroup ''Checking cache'', Find ''gh-cli'' ''2.40.0'',
           Info ''Found cached version.'', EndGroup,
           StartGroup ''Checking installation'', IsDebug, AddPath ''/cache/gh/bin'',
           GetExecOutput ''gh'' [''version''], SetOutput ''installed-version'' ''2.40.0'',
           EndGroup])
   \<and> take 4 (snd (main_steps example_env Linux
        \<lparr>inputVersion = ''stable'', semverVersion = None\<rparr> None []))
       = [StartGroup ''Checking cache'', EndGroup, StartGroup ''Fetching release'',
          GetLatestRelease None ''cli'' ''cli'']
   \<and> isLatest \<lparr>inputVersion = ''latest'', semverVersion = None\<rparr>
   \<and> \<not> isStable \<lparr>inputVersion = ''latest'', semverVersion = None\<rparr>
   \<and> take 4 (snd (main_steps example_env Linux
        \<lparr>inputVersion = ''latest'', semverVersion = None\<rparr> None []))
       = [StartGroup ''Checking cache'', EndGroup, StartGroup ''Fetching release'',
          ListReleases None ''cli'' ''cli'' 100]
   \<and> list_all (\<lambda>e. \<not> resolution_or_installation e)
      (snd (main_steps (example_env\<lparr>tools_find := \<lambda>t tool v. Inr ''/cache/gh''\<rparr>) Linux
        \<lparr>inputVersion = ''v2.40.0'', semverVersion = Some \<lparr>versionString = ''2.40.0''\<rparr>\<rparr>
        None []))
   \<and> checking_cache (example_env\<lparr>tools_find := \<lambda>t tool v. Inr ''/cache/gh''\<rparr>)
        \<lparr>inputVersion = ''v2.40.0'', semverVersion = Some \<lparr>versionString = ''2.40.0''\<rparr>\<rparr> []
       = checkCache (example_env\<lparr>tools_find := \<lambda>t tool v. Inr ''/cache/gh''\<rparr>)
           \<lparr>versionString = ''2.40.0''\<rparr> []
   \<and> snd (findMatchingRelease example_env \<lparr>inputVersion = ''stable'', semverVersion = None\<rparr> None [])
       = [GetLatestRelease None ''cli'' ''cli'']
   \<and> snd (findMatchingRelease example_env \<lparr>inputVersion = ''latest'', semverVersion = None\<rparr> None [])
       = [ListReleases None ''cli'' ''cli'' 100]"
proof -
  have a: "isStable \<lparr>inputVersion = ''stable'', semverVersion = None\<rparr>" by code_simp
  have b: "fst (checking_cache (example_env\<lparr>tools_find := \<lambda>t tool v. Inr ''/cache/gh''\<rparr>)
        \<lparr>inputVersion = ''v2.40.0'', semverVersion = Some \<lparr>versionString = ''2.40.0''\<rparr>\<rparr>
        [StartGroup ''Checking cache''])
       = Inr (Some \<lparr>installed_version = \<lparr>versionString = ''2.40.0''\<rparr>,
                     installed_path = ''/cache/gh''\<rparr>)" by code_simp
  have c: "main_steps (example_env\<lparr>tools_find := \<lambda>t tool v. Inr ''/cache/gh''\<rparr>) Linux
        \<lparr>inputVersion = ''v2.40.0'', semverVersion = Some \<lparr>versionString = ''2.40.0''\<rparr>\<rparr> None []
       = (Inr (),
          [StartGroup ''Checking cache'', Find ''gh-cli'' ''2.40.0'',
           Info ''Found cached version.'', EndGroup,
           StartGroup ''Checking installation'', IsDebug, AddPath ''/cache/gh/bin'',
           GetExecOutput ''gh'' [''version''], SetOutput ''installed-version'' ''2.40.0'',
           EndGroup])" by code_simp
  have d: "isLatest \<lparr>inputVersion = ''latest'', semverVersion = None\<rparr>" by code_simp
  have e: "\<not> isStable \<lparr>inputVersion = ''latest'', semverVersion = None\<rparr>" by code_simp
  have s: "take 4 (snd (main_steps example_env Linux
        \<lparr>inputVersion = ''stable'', semverVersion = None\<rparr> None []))
       = [StartGroup ''Checking cache'', EndGroup, StartGroup ''Fetching release'',
          GetLatestRelease None ''cli'' ''cli'']"
    using C7_cache_short_circuit [of "\<lparr>inputVersion = ''stable'', semverVersion = None\<rparr>"
        example_env "[]" _ _ Linux None, THEN conjunct2, THEN conjunct2, THEN conjunct2, THEN conjunct2, THEN conjunct2, THEN conjunct2, THEN conjunct2, THEN conjunct2, THEN conjunct2, THEN conjunct2] a
    by simp
  have l: "take 4 (snd (main_steps example_env Linux
        \<lparr>inputVersion = ''latest'', semverVersion = None\<rparr> None []))
       = [StartGroup ''Checking cache'', EndGroup, StartGroup ''Fetching release'',
          ListReleases None ''cli'' ''cli'' 100]"
    using C7_cache_short_circuit [of "\<lparr>inputVersion = ''latest'', semverVersion = None\<rparr>"
        example_env "[]" _ _ Linux None, THEN conjunct2, THEN conjunct2, THEN conjunct2, THEN conjunct2, THEN conjunct2, THEN conjunct2, THEN conjunct2, THEN conjunct2, THEN conjunct2, THEN conjunct2] d e
    by simp
  have m: "checking_cache example_env \<lparr>inputVersion = ''stable'', semverVersion = None\<rparr> []
       = (Inr None, [])"
    using C7_cache_short_circuit [of "\<lparr>inputVersion = ''stable'', semverVersion = None\<rparr>"
        example_env "[]", THEN conjunct1] a
    by simp
  have b': "fst (checking_cache (example_env\<lparr>tools_find := \<lambda>t tool v. Inr ''/cache/gh''\<rparr>)
        \<lparr>inputVersion = ''v2.40.0'', semverVersion = Some \<lparr>versionString = ''2.40.0''\<rparr>\<rparr>
        ([] @ [StartGroup ''Checking cache'']))
       = Inr (Some \<lparr>installed_version = \<lparr>versionString = ''2.40.0''\<rparr>,
                     installed_path = ''/cache/gh''\<rparr>)"
    using b by simp
  have n: "list_all (\<lambda>e. \<not> resolution_or_installation e)
      (snd (main_steps (example_env\<lparr>tools_find := \<lambda>t tool v. Inr ''/cache/gh''\<rparr>) Linux
        \<lparr>inputVersion = ''v2.40.0'', semverVersion = Some \<lparr>versionString = ''2.40.0''\<rparr>\<rparr>
        None []))"
    using C7_cache_short_circuit [of
        "\<lparr>inputVersion = ''v2.40.0'', semverVersion = Some \<lparr>versionString = ''2.40.0''\<rparr>\<rparr>"
        "example_env\<lparr>tools_find := \<lambda>t tool v. Inr ''/cache/gh''\<rparr>" "[]"
        "\<lparr>versionString = ''2.40.0''\<rparr>"
        "\<lparr>installed_version = \<lparr>versionString = ''2.40.0''\<rparr>, installed_path = ''/cache/gh''\<rparr>"
        Linux None, THEN conjunct2, THEN conjunct2, THEN conjunct2, THEN conjunct1,
        THEN mp, OF b', THEN conjunct2]
    by simp
  have x: "\<not> isStable \<lparr>inputVersion = ''v2.40.0'', semverVersion = Some \<lparr>versionString = ''2.40.0''\<rparr>\<rparr>
      \<and> \<not> isLatest \<lparr>inputVersion = ''v2.40.0'', semverVersion = Some \<lparr>versionString = ''2.40.0''\<rparr>\<rparr>"
    by code_simp
  have o: "checking_cache (example_env\<lparr>tools_find := \<lambda>t tool v. Inr ''/cache/gh''\<rparr>)
        \<lparr>inputVersion = ''v2.40.0'', semverVersion = Some \<lparr>versionString = ''2.40.0''\<rparr>\<rparr> []
       = checkCache (example_env\<lparr>tools_find := \<lambda>t tool v. Inr ''/cache/gh''\<rparr>)
           \<lparr>versionString = ''2.40.0''\<rparr> []"
    using C7_cache_short_circuit [of
        "\<lparr>inputVersion = ''v2.40.0'', semverVersion = Some \<lparr>versionString = ''2.40.0''\<rparr>\<rparr>"
        "example_env\<lparr>tools_find := \<lambda>t tool v. Inr ''/cache/gh''\<rparr>" "[]"
        "\<lparr>versionString = ''2.40.0''\<rparr>", THEN conjunct2, THEN conjunct1] x
    by simp
  have q: "snd (findMatchingRelease example_env \<lparr>inputVersion = ''stable'', semverVersion = None\<rparr> None [])
       = [GetLatestRelease None ''cli'' ''cli'']"
    using C7_cache_short_circuit [of "\<lparr>inputVersion = ''stable'', semverVersion = None\<rparr>"
        example_env "[]" _ _ _ None, THEN conjunct2, THEN conjunct2, THEN conjunct2, THEN conjunct2, THEN conjunct2, THEN conjunct2, THEN conjunct2, THEN conjunct2, THEN conjunct1] a
    by simp
  have r: "snd (findMatchingRelease example_env \<lparr>inputVersion = ''latest'', semverVersion = None\<rparr> None [])
       = [ListReleases None ''cli'' ''cli'' 100]"
    using C7_cache_short_circuit [of "\<lparr>inputVersion = ''latest'', semverVersion = None\<rparr>"
        example_env "[]" _ _ _ None, THEN conjunct2, THEN conjunct2, THEN conjunct2, THEN conjunct2, THEN conjunct2, THEN conjunct2, THEN conjunct2, THEN conjunct2, THEN conjunct2, THEN conjunct1] d
    by simp
  show ?thesis using a b c d e s l m n o q r by simp
qed

subsection \<open>A complete run\<close>

text \<open>
  On the example host, a request for \<open>stable\<close> with an empty cache resolves the latest
  stable release, builds the asset name for linux and amd64, installs the archive and
  publishes the resolved version.
\<close>

lemma example_stable_run:
  "action example_env [] =
     (Inr (),
      [StartGroup ''Validate input'', GetInput ''version'', GetInput ''github-token'', EndGroup,
       StartGroup ''Checking cache'', EndGroup,
       StartGroup ''Fetching release'', GetLatestRelease None ''cli'' ''cli'',
       Find ''gh-cli'' ''2.40.0'', EndGroup,
       StartGroup ''Installing release'',
       DownloadTool ''https://example/gh_2.40.0_linux_amd64.tar.gz'',
       ExtractTar ''/tmp/download'', ReaddirSync ''/tmp/extracted'',
       ReaddirSync ''/tmp/extracted/gh_2.40.0_linux_amd64'',
       CacheDir ''/tmp/extracted/gh_2.40.0_linux_amd64'' ''gh'' ''gh-cli'' ''2.40.0'',
       EndGroup,
       StartGroup ''Checking installation'', IsDebug,
       AddPath ''/opt/hostedtoolcache/gh-cli/2.40.0/bin'',
       GetExecOutput ''gh'' [''version''],
       SetOutput ''installed-version'' ''2.40.0'', EndGroup])"
  by code_simp

end
